theory Spec2Isabelle
  imports Main
begin

section \<open>Validator payout utility: cache store, era resolver, scan coordinator, submission\<close>

text \<open>
  A shallow embedding of the payout utility: the Redis-backed cache (\<open>cache.js\<close>), the
  scan worker that resolves unclaimed reward pages per validator and era, and the main
  program that computes the era range, fans the stashes out to workers and submits the
  claim transactions.

  Conventions.
  \<^item> JavaScript numbers that hold chain counters (page indices, page counts, nonces) and
    BigInt balances are \<open>nat\<close>; eras are \<open>int\<close>, because the start of the range is computed
    by a subtraction that can go below zero before it is clamped.
  \<^item> The chain and the Redis server are not part of the program. The chain is a record of
    the answers it gives; the server is the list of its keys with their values, with the
    commands \<open>GET\<close>, \<open>SETEX\<close> and \<open>SCAN\<close> the program uses. Connection failures of the
    server are not modelled; a script that the server aborts and a rejected chain query of
    an era check are.
  \<^item> JSON serialisation of cache values is left abstract: the store holds the decoded
    object. The clock reading \<open>Date.now()\<close> is an argument.
  \<^item> Promises that the program starts together and joins (\<open>Promise.all\<close>,
    \<open>Promise.allSettled\<close>, the workers) run one after another, in the order of the arrays
    they are collected in.
  \<^item> Console logging is not modelled, except for the settlement report of a submission,
    which is the only output of that function.
\<close>

subsection \<open>Numbers inside template strings\<close>

definition digitChar :: "nat \<Rightarrow> char" where
  "digitChar d = char_of (48 + d)"

text \<open>Decimal rendering of a non-negative integer, most significant digit first.\<close>

function showNat :: "nat \<Rightarrow> string" where
  "showNat n = (if n < 10 then [digitChar n] else showNat (n div 10) @ [digitChar (n mod 10)])"
  by pat_completeness auto
termination
  by (relation "measure id") auto

declare showNat.simps [simp del]

text \<open>\<open>`${era}`\<close>: a negative number is rendered with a leading minus sign.\<close>

definition showInt :: "int \<Rightarrow> string" where
  "showInt i = (if i < 0 then CHR ''-'' # showNat (nat (- i)) else showNat (nat i))"

subsection \<open>Cache keys (\<open>cache.js\<close>, lines 3 to 20)\<close>

definition CACHE_TTL :: nat where
  "CACHE_TTL = 3600 * 24 * 7"

definition KEY_PREFIX :: string where
  "KEY_PREFIX = ''payout:''"

definition SCAN_BATCH :: nat where
  "SCAN_BATCH = 1000"

text \<open>\<open>buildKey = (chain, validator, era) => `${KEY_PREFIX}${chain}:${validator}:${era}`\<close>\<close>

definition buildKey :: "string \<Rightarrow> string \<Rightarrow> int \<Rightarrow> string" where
  "buildKey chn vld e = KEY_PREFIX @ chn @ '':'' @ vld @ '':'' @ showInt e"

text \<open>The fields \<open>validator\<close> and \<open>era\<close> occur in every object of the program.\<close>

record payoutId =
  validator :: string
  era :: int

record parsedKey = payoutId +
  chain' :: string

text \<open>The character classes \<open>\w\<close> (letters, digits, underscore) and \<open>\d\<close> of the key pattern.\<close>

definition isWordChar :: "char \<Rightarrow> bool" where
  "isWordChar c =
     (let n = (of_char c :: nat)
      in (48 \<le> n \<and> n \<le> 57) \<or> (65 \<le> n \<and> n \<le> 90) \<or> n = 95 \<or> (97 \<le> n \<and> n \<le> 122))"

definition isDigit :: "char \<Rightarrow> bool" where
  "isDigit c = (let n = (of_char c :: nat) in 48 \<le> n \<and> n \<le> 57)"

fun stripPrefix :: "string \<Rightarrow> string \<Rightarrow> string option" where
  "stripPrefix [] s = Some s"
| "stripPrefix (p # ps) [] = None"
| "stripPrefix (p # ps) (c # cs) = (if p = c then stripPrefix ps cs else None)"

text \<open>The fields of a string between occurrences of a separator; never the empty list.\<close>

fun splitOn :: "char \<Rightarrow> string \<Rightarrow> string list" where
  "splitOn sep [] = [[]]"
| "splitOn sep (c # cs) =
     (if c = sep then [] # splitOn sep cs
      else (case splitOn sep cs of
              [] \<Rightarrow> [[c]]
            | f # fs \<Rightarrow> (c # f) # fs))"

text \<open>\<open>parseInt\<close> on a string of decimal digits.\<close>

definition parseInt :: "string \<Rightarrow> nat" where
  "parseInt ds = foldl (\<lambda>acc c. 10 * acc + (of_char c - 48)) 0 ds"

text \<open>
  \<open>parseKey\<close> matches \<open>/^payout:(\w+):(\w+):(\d+)$/\<close>. Neither \<open>\w\<close> nor \<open>\d\<close> matches a
  colon, so the pattern matches exactly when the text after \<open>payout:\<close> splits at its colons
  into three non-empty fields of the right character classes.
\<close>

definition parseKey :: "string \<Rightarrow> parsedKey option" where
  "parseKey key =
     (case stripPrefix ''payout:'' key of
        None \<Rightarrow> None
      | Some rest \<Rightarrow>
          (case splitOn CHR '':'' rest of
             [c, v, e] \<Rightarrow>
               if c \<noteq> [] \<and> list_all isWordChar c \<and> v \<noteq> [] \<and> list_all isWordChar v
                  \<and> e \<noteq> [] \<and> list_all isDigit e
               then Some \<lparr>validator = v, era = int (parseInt e), chain' = c\<rparr>
               else None
           | _ \<Rightarrow> None))"

subsection \<open>Finding unclaimed pages\<close>

text \<open>
  The loop \<open>for (let p = 0; p < pageCount; p++) if (!claimedPages.includes(p)) unclaimed.push(p)\<close>
  occurs three times: in the worker on a cache hit and after a chain query, and in
  \<open>getUnclaimedPayouts\<close>.
\<close>

function findUnclaimedFrom :: "nat \<Rightarrow> nat \<Rightarrow> nat list \<Rightarrow> nat list \<Rightarrow> nat list" where
  "findUnclaimedFrom p pageCount claimed unclaimed =
     (if p < pageCount
      then findUnclaimedFrom (p + 1) pageCount claimed
             (if p \<notin> set claimed then unclaimed @ [p] else unclaimed)
      else unclaimed)"
  by pat_completeness auto
termination
  by (relation "measure (\<lambda>(p, pageCount, claimed, unclaimed). pageCount - p)") auto

declare findUnclaimedFrom.simps [simp del]

definition findUnclaimed :: "nat \<Rightarrow> nat list \<Rightarrow> nat list" where
  "findUnclaimed pageCount claimed = findUnclaimedFrom 0 pageCount claimed []"

subsection \<open>The cache store (\<open>cache.js\<close>, class \<open>PayoutCache\<close>)\<close>

record EraPayoutStatus = payoutId +
  claimedPages :: "nat list"
  totalPages :: nat
  lastChecked :: nat

text \<open>
  The Redis server: keys in the server's enumeration order, each with the time to live it
  was last written with and its value. Expiry is not modelled.
\<close>

type_synonym redis = "(string \<times> nat \<times> EraPayoutStatus) list"

definition redisGet :: "string \<Rightarrow> redis \<Rightarrow> EraPayoutStatus option" where
  "redisGet key d = map_option snd (map_of d key)"

fun redisSetEx :: "string \<Rightarrow> nat \<Rightarrow> EraPayoutStatus \<Rightarrow> redis \<Rightarrow> redis" where
  "redisSetEx key t v [] = [(key, t, v)]"
| "redisSetEx key t v ((k, entry) # d) =
     (if k = key then (key, t, v) # d else (k, entry) # redisSetEx key t v d)"

text \<open>
  One \<open>SCAN cursor MATCH pattern COUNT n\<close> call. The server walks \<open>n\<close> keys from the cursor
  position, returns those that match, and returns cursor 0 when the walk is complete.
  The glob matcher of the server is a parameter.
\<close>

definition redisScan ::
  "(string \<Rightarrow> string \<Rightarrow> bool) \<Rightarrow> redis \<Rightarrow> nat \<Rightarrow> string \<Rightarrow> nat \<Rightarrow> nat \<times> string list" where
  "redisScan glob d cursor pattern n =
     (if cursor + n < length d then cursor + n else 0,
      filter (glob pattern) (take n (drop cursor (map fst d))))"

record PayoutCache =
  ttl :: nat
  db :: redis

text \<open>\<open>this.ttl = config.ttl || CACHE_TTL\<close>: a missing or zero setting gives the default.\<close>

definition newPayoutCache :: "nat option \<Rightarrow> redis \<Rightarrow> PayoutCache" where
  "newPayoutCache configTtl d =
     \<lparr>ttl = (case configTtl of None \<Rightarrow> CACHE_TTL | Some t \<Rightarrow> if t = 0 then CACHE_TTL else t),
      db = d\<rparr>"

definition getEra :: "PayoutCache \<Rightarrow> string \<Rightarrow> string \<Rightarrow> int \<Rightarrow> EraPayoutStatus option" where
  "getEra c chn vld e = redisGet (buildKey chn vld e) (db c)"

definition setEra :: "PayoutCache \<Rightarrow> string \<Rightarrow> EraPayoutStatus \<Rightarrow> PayoutCache" where
  "setEra c chn cache =
     c\<lparr>db := redisSetEx (buildKey chn (validator cache) (era cache)) (ttl c) cache (db c)\<rparr>"

text \<open>
  The Lua script of \<open>updateClaimedPages\<close>, lines 69 to 83. \<open>pageSet\<close> is a table used as
  a set; it is modelled by the list of its keys, each once. \<open>pairs\<close> enumerates the keys in
  an order Lua leaves open, and \<open>table.sort\<close> then fixes the order.
\<close>

definition addKey :: "nat list \<Rightarrow> nat \<Rightarrow> nat list" where
  "addKey pageSet p = (if p \<in> set pageSet then pageSet else pageSet @ [p])"

definition mergedPages :: "nat list \<Rightarrow> nat list \<Rightarrow> nat list" where
  "mergedPages old pages = sort (foldl addKey (foldl addKey [] old) pages)"

text \<open>
  The script as the server runs it. Without an entry it returns 0. With an entry it
  computes the merged list and then, at line 85, calls \<open>os.time()\<close>. The script runs in
  the Lua environment of the Redis server, which is \<open>redis:7\<close> in \<open>compose.yaml\<close>; that
  environment has \<open>os.clock\<close> and no \<open>os.time\<close>. The call of the missing function raises,
  the script is aborted and \<open>EVAL\<close> is rejected. The only write of the script, the
  \<open>SETEX\<close> of line 87, comes after the call, so the store is as before.
\<close>

datatype evalError = ScriptError string

definition mergeScript :: "string \<Rightarrow> nat list \<Rightarrow> nat \<Rightarrow> redis \<Rightarrow> redis \<times> (evalError + nat)" where
  "mergeScript key pages t d =
     (case redisGet key d of
        None \<Rightarrow> (d, Inr 0)
      | Some cache \<Rightarrow>
          (let cache' = cache\<lparr>claimedPages := mergedPages (claimedPages cache) pages\<rparr>
           in (d, Inl (ScriptError ''attempt to call field time (a nil value)''))))"

text \<open>
  \<open>updateClaimedPages\<close> awaits \<open>client.eval\<close>: a rejected \<open>EVAL\<close> is the error it throws,
  otherwise it returns \<open>result === 1\<close>.
\<close>

definition updateClaimedPages ::
  "PayoutCache \<Rightarrow> string \<Rightarrow> string \<Rightarrow> int \<Rightarrow> nat list \<Rightarrow> PayoutCache \<times> (evalError + bool)" where
  "updateClaimedPages c chn vld e pages =
     (let r = mergeScript (buildKey chn vld e) pages (ttl c) (db c)
      in (c\<lparr>db := fst r\<rparr>,
          case snd r of Inl err \<Rightarrow> Inl err | Inr result \<Rightarrow> Inr (result = 1)))"

record CachedUnclaimed = payoutId +
  unclaimedPages :: "nat list"

text \<open>The body of the loop over the keys of one scan batch in \<open>getUnclaimedPayouts\<close>.\<close>

definition scanEntry :: "PayoutCache \<Rightarrow> int \<Rightarrow> CachedUnclaimed list \<Rightarrow> string \<Rightarrow> CachedUnclaimed list" where
  "scanEntry c currentEra unclaimed key =
     (case redisGet key (db c) of
        None \<Rightarrow> unclaimed
      | Some cache \<Rightarrow>
          (case parseKey key of
             None \<Rightarrow> unclaimed
           | Some parsed \<Rightarrow>
               if era parsed \<ge> currentEra then unclaimed
               else (let ps = findUnclaimed (totalPages cache) (claimedPages cache)
                     in if length ps > 0
                        then unclaimed @ [\<lparr>validator = validator cache, era = era cache,
                                            unclaimedPages = ps\<rparr>]
                        else unclaimed)))"

text \<open>The \<open>do ... while (cursor !== 0)\<close> loop.\<close>

function scanLoop ::
  "(string \<Rightarrow> string \<Rightarrow> bool) \<Rightarrow> PayoutCache \<Rightarrow> int \<Rightarrow> string \<Rightarrow> nat \<Rightarrow> CachedUnclaimed list
     \<Rightarrow> CachedUnclaimed list" where
  "scanLoop glob c currentEra pattern cursor unclaimed =
     (if fst (redisScan glob (db c) cursor pattern SCAN_BATCH) \<noteq> 0
      then scanLoop glob c currentEra pattern
             (fst (redisScan glob (db c) cursor pattern SCAN_BATCH))
             (foldl (scanEntry c currentEra) unclaimed
                (snd (redisScan glob (db c) cursor pattern SCAN_BATCH)))
      else foldl (scanEntry c currentEra) unclaimed
             (snd (redisScan glob (db c) cursor pattern SCAN_BATCH)))"
  by pat_completeness auto
termination
  by (relation "measure (\<lambda>(glob, c, currentEra, pattern, cursor, unclaimed). length (db c) - cursor)")
     (auto simp: redisScan_def SCAN_BATCH_def split: if_splits)

declare scanLoop.simps [simp del]

definition getUnclaimedPayouts ::
  "(string \<Rightarrow> string \<Rightarrow> bool) \<Rightarrow> PayoutCache \<Rightarrow> string \<Rightarrow> int \<Rightarrow> CachedUnclaimed list" where
  "getUnclaimedPayouts glob c chn currentEra =
     scanLoop glob c currentEra (KEY_PREFIX @ chn @ '':*'') 0 []"

subsection \<open>The scan worker (\<open>parentPort.on('message', ...)\<close>)\<close>

definition NOMINATORS_PER_PAGE :: nat where
  "NOMINATORS_PER_PAGE = 512"

text \<open>A chain query is a promise: it is rejected with a message or resolves to a value.\<close>

datatype 'a rpc = RpcFailed string | RpcOk 'a

text \<open>
  The chain's exposure types. \<open>total\<close> is a \<open>u128\<close> balance (a BigInt, for which
  \<open>!total\<close> and \<open>total === 0n\<close> say the same), \<open>pageCount\<close> a \<open>u32\<close>, \<open>others\<close> the list
  of nominators with their stakes; on these types the guards \<open>overview.pageCount || 0\<close> and
  \<open>exposure.others?.length || 0\<close> change nothing.
\<close>

record exposureTotal =
  total' :: nat

record PagedExposureMetadata = exposureTotal +
  pageCount :: nat

record Exposure = exposureTotal +
  others :: "(string \<times> nat) list"

text \<open>What the chain answers for one era and stash; \<open>None\<close> is \<open>null\<close> or \<open>undefined\<close>.\<close>

record eraQueries =
  erasStakersOverview :: "PagedExposureMetadata option rpc"
  erasStakersClipped :: "Exposure option rpc"
  claimedRewards :: "nat list option rpc"

datatype call = PayoutStakers string int "nat option"

text \<open>How a signed transaction ends: finalized, with or without a dispatch error, or rejected.\<close>

datatype txOutcome = Finalized "string option" | Failed string

text \<open>
  The chain client. \<open>hasOverview\<close> says whether \<open>client.query.staking.erasStakersOverview\<close>
  exists; \<open>systemAccount\<close> gives the nonce and the free balance of an address.
\<close>

record client =
  hasOverview :: bool
  staking :: "int \<Rightarrow> string \<Rightarrow> eraQueries"
  activeEra :: "int option"
  historyDepth :: int
  paymentInfo :: "call \<Rightarrow> string \<Rightarrow> nat"
  systemAccount :: "string \<Rightarrow> nat \<times> nat"
  signAndSend :: "call \<Rightarrow> string \<Rightarrow> nat \<Rightarrow> txOutcome"

record UnclaimedPayout = payoutId +
  pages :: "nat list"

text \<open>The validator was not active in the era: both exposure branches do the same.\<close>

definition inactiveEra ::
  "bool \<Rightarrow> string \<Rightarrow> nat \<Rightarrow> string \<Rightarrow> PayoutCache \<Rightarrow> int \<Rightarrow> PayoutCache \<times> UnclaimedPayout option" where
  "inactiveEra useCache chn now stash c e =
     (if useCache
      then setEra c chn \<lparr>validator = stash, era = e, claimedPages = [], totalPages = 0,
                          lastChecked = now\<rparr>
      else c,
      None)"

text \<open>
  From \<open>// Get claimed rewards\<close> to the end of the era check: the exposure has total stake
  \<open>total0 > 0\<close> and page count \<open>pageCount0\<close>.
\<close>

definition resolveClaims ::
  "client \<Rightarrow> bool \<Rightarrow> string \<Rightarrow> nat \<Rightarrow> string \<Rightarrow> PayoutCache \<Rightarrow> int \<Rightarrow> nat \<Rightarrow> nat
     \<Rightarrow> PayoutCache \<times> UnclaimedPayout option" where
  "resolveClaims cl useCache chn now stash c e total0 pageCount0 =
     (case claimedRewards (staking cl e stash) of
        RpcFailed msg \<Rightarrow> (c, None)
      | RpcOk claimed \<Rightarrow>
          (let claimedPages' = (case claimed of None \<Rightarrow> [] | Some ps \<Rightarrow> ps);
               pageCount' = (if pageCount0 = 0 \<and> length claimedPages' = 0
                             then (if total0 > 0 then 1 else pageCount0)
                             else pageCount0);
               unclaimed = findUnclaimed pageCount' claimedPages';
               c' = (if useCache
                     then setEra c chn \<lparr>validator = stash, era = e, claimedPages = claimedPages',
                                         totalPages = pageCount', lastChecked = now\<rparr>
                     else c)
           in (c', if length unclaimed > 0
                   then Some \<lparr>validator = stash, era = e, pages = unclaimed\<rparr>
                   else None)))"

text \<open>
  One era check. A rejected query is caught, logged and gives \<open>null\<close>. \<open>Date.now()\<close> is
  the argument \<open>now\<close>.
\<close>

definition eraCheck ::
  "client \<Rightarrow> bool \<Rightarrow> string \<Rightarrow> nat \<Rightarrow> string \<Rightarrow> PayoutCache \<Rightarrow> int
     \<Rightarrow> PayoutCache \<times> UnclaimedPayout option" where
  "eraCheck cl useCache chn now stash c e =
     (case (if useCache then getEra c chn stash e else None) of
        Some cached \<Rightarrow>
          (let unclaimed = findUnclaimed (totalPages cached) (claimedPages cached)
           in (c, if length unclaimed > 0
                  then Some \<lparr>validator = stash, era = e, pages = unclaimed\<rparr>
                  else None))
      | None \<Rightarrow>
          if hasOverview cl
          then (case erasStakersOverview (staking cl e stash) of
                  RpcFailed msg \<Rightarrow> (c, None)
                | RpcOk None \<Rightarrow> inactiveEra useCache chn now stash c e
                | RpcOk (Some overview) \<Rightarrow>
                    if total' overview = 0 then inactiveEra useCache chn now stash c e
                    else resolveClaims cl useCache chn now stash c e
                           (total' overview) (pageCount overview))
          else (case erasStakersClipped (staking cl e stash) of
                  RpcFailed msg \<Rightarrow> (c, None)
                | RpcOk None \<Rightarrow> inactiveEra useCache chn now stash c e
                | RpcOk (Some exposure) \<Rightarrow>
                    if total' exposure = 0 then inactiveEra useCache chn now stash c e
                    else resolveClaims cl useCache chn now stash c e (total' exposure)
                           ((length (others exposure) + (NOMINATORS_PER_PAGE - 1))
                              div NOMINATORS_PER_PAGE)))"

text \<open>
  The era checks of one stash, \<open>for (let era = startEra; era <= endEra; era++)\<close>, joined
  by \<open>Promise.all\<close> and filtered by \<open>Boolean\<close>. The checks of the source run interleaved;
  the model runs them in the order of the loop.
\<close>

fun eraChecks ::
  "client \<Rightarrow> bool \<Rightarrow> string \<Rightarrow> nat \<Rightarrow> string \<Rightarrow> PayoutCache \<Rightarrow> int list
     \<Rightarrow> PayoutCache \<times> UnclaimedPayout list" where
  "eraChecks cl useCache chn now stash c [] = (c, [])"
| "eraChecks cl useCache chn now stash c (e # es) =
     (case eraCheck cl useCache chn now stash c e of
        (c1, r) \<Rightarrow>
          (case eraChecks cl useCache chn now stash c1 es of
             (c2, rs) \<Rightarrow> (c2, (case r of None \<Rightarrow> rs | Some u \<Rightarrow> u # rs))))"

text \<open>The worker's loop over its stashes.\<close>

fun onMessage ::
  "client \<Rightarrow> bool \<Rightarrow> string \<Rightarrow> nat \<Rightarrow> int \<Rightarrow> int \<Rightarrow> PayoutCache \<Rightarrow> string list
     \<Rightarrow> PayoutCache \<times> UnclaimedPayout list" where
  "onMessage cl useCache chn now startEra endEra c [] = (c, [])"
| "onMessage cl useCache chn now startEra endEra c (stash # stashes) =
     (case eraChecks cl useCache chn now stash c [startEra..endEra] of
        (c1, eraResults) \<Rightarrow>
          (case onMessage cl useCache chn now startEra endEra c1 stashes of
             (c2, results) \<Rightarrow> (c2, eraResults @ results)))"

subsection \<open>The scan coordinator\<close>

text \<open>
  \<open>Array.from({ length: workers }, (_, i) => stashes.filter((_, idx) => idx % workers === i))\<close>
\<close>

definition chunks :: "nat \<Rightarrow> string list \<Rightarrow> string list list" where
  "chunks workers stashes =
     map (\<lambda>i. map snd (filter (\<lambda>(idx, s). idx mod workers = i) (enumerate 0 stashes)))
       [0..<workers]"

text \<open>One worker per chunk; the workers share the Redis server. They run one after another here.\<close>

fun runWorkers ::
  "client \<Rightarrow> bool \<Rightarrow> string \<Rightarrow> nat \<Rightarrow> int \<Rightarrow> int \<Rightarrow> PayoutCache \<Rightarrow> string list list
     \<Rightarrow> PayoutCache \<times> UnclaimedPayout list list" where
  "runWorkers cl useCache chn now startEra endEra c [] = (c, [])"
| "runWorkers cl useCache chn now startEra endEra c (chunk # cs) =
     (case onMessage cl useCache chn now startEra endEra c chunk of
        (c1, result) \<Rightarrow>
          (case runWorkers cl useCache chn now startEra endEra c1 cs of
             (c2, results) \<Rightarrow> (c2, result # results)))"

definition scanWithWorkersCustomRange ::
  "client \<Rightarrow> nat \<Rightarrow> string list \<Rightarrow> string \<Rightarrow> int \<Rightarrow> int \<Rightarrow> nat \<Rightarrow> bool \<Rightarrow> PayoutCache
     \<Rightarrow> PayoutCache \<times> UnclaimedPayout list" where
  "scanWithWorkersCustomRange cl now stashes chn startEra endEra workers useCache c =
     (case runWorkers cl useCache chn now startEra endEra c (chunks workers stashes) of
        (c', results) \<Rightarrow> (c', concat results))"

text \<open>\<open>scanWithWorkers\<close> computes the default range itself.\<close>

definition scanWithWorkers ::
  "client \<Rightarrow> nat \<Rightarrow> string list \<Rightarrow> string \<Rightarrow> int \<Rightarrow> int \<Rightarrow> nat \<Rightarrow> bool \<Rightarrow> PayoutCache
     \<Rightarrow> PayoutCache \<times> UnclaimedPayout list" where
  "scanWithWorkers cl now stashes chn currentEra depth workers useCache c =
     (let startEra = max 0 (currentEra - depth);
          endEra = currentEra - 1
      in case runWorkers cl useCache chn now startEra endEra c (chunks workers stashes) of
           (c', results) \<Rightarrow> (c', concat results))"

text \<open>
  \<open>scanPayouts\<close>. \<open>getCurrentEra\<close> throws when the chain reports no active era. A custom
  bound that is \<open>null\<close> (the default of the parameter, also taken for \<open>undefined\<close>) is \<open>None\<close>.
\<close>

definition scanRange :: "int \<Rightarrow> int \<Rightarrow> int option \<Rightarrow> int option \<Rightarrow> int \<times> int" where
  "scanRange currentEra depth customStartEra customEndEra =
     (case customStartEra of Some s \<Rightarrow> s | None \<Rightarrow> max 0 (currentEra - depth),
      case customEndEra of Some e \<Rightarrow> e | None \<Rightarrow> currentEra - 1)"

definition scanPayouts ::
  "client \<Rightarrow> nat \<Rightarrow> string list \<Rightarrow> string \<Rightarrow> nat \<Rightarrow> bool \<Rightarrow> int option \<Rightarrow> int option
     \<Rightarrow> PayoutCache \<Rightarrow> string + PayoutCache \<times> UnclaimedPayout list" where
  "scanPayouts cl now stashes chn workers useCache customStartEra customEndEra c =
     (case activeEra cl of
        None \<Rightarrow> Inl ''No active era found''
      | Some currentEra \<Rightarrow>
          (case scanRange currentEra (historyDepth cl) customStartEra customEndEra of
             (startEra, endEra) \<Rightarrow>
               Inr (scanWithWorkersCustomRange cl now stashes chn startEra endEra workers
                      useCache c)))"

subsection \<open>The submission engine (\<open>submitPayouts\<close>)\<close>

record pageId = payoutId +
  page :: nat

record ClaimTx = pageId +
  tx :: call
  nonce :: nat

record TxResult = pageId +
  ok :: bool
  err :: "string option"

text \<open>The console output of a submission: the line \<open>ok/total\<close> and one line per failure.\<close>

record Report =
  okCount :: nat
  totalCount :: nat
  failedLines :: "string list"

datatype submitError = InsufficientBalance nat nat

text \<open>\<open>txs.push({ tx, nonce: n++, validator: validator.substring(0, 8), era, page })\<close>\<close>

definition pushTx :: "string \<Rightarrow> int \<Rightarrow> ClaimTx list \<times> nat \<Rightarrow> nat \<Rightarrow> ClaimTx list \<times> nat" where
  "pushTx vld e st p =
     (fst st @ [\<lparr>validator = take 8 vld, era = e, page = p,
                  tx = PayoutStakers vld e (Some p), nonce = snd st\<rparr>],
      snd st + 1)"

definition pushPayout :: "ClaimTx list \<times> nat \<Rightarrow> UnclaimedPayout \<Rightarrow> ClaimTx list \<times> nat" where
  "pushPayout st u = foldl (pushTx (validator u) (era u)) st (pages u)"

definition buildTxs :: "nat \<Rightarrow> UnclaimedPayout list \<Rightarrow> ClaimTx list" where
  "buildTxs n0 unclaimed = fst (foldl pushPayout ([], n0) unclaimed)"

text \<open>
  \<open>.then(r => ({ ok: !r.dispatchError, ... })).catch(e => ({ ok: false, ..., err: e.message }))\<close>
\<close>

definition settle :: "ClaimTx \<Rightarrow> txOutcome \<Rightarrow> TxResult" where
  "settle t out =
     (case out of
        Finalized dispatchError \<Rightarrow>
          \<lparr>validator = validator t, era = era t, page = page t,
           ok = (dispatchError = None), err = None\<rparr>
      | Failed msg \<Rightarrow>
          \<lparr>validator = validator t, era = era t, page = page t, ok = False, err = Some msg\<rparr>)"

text \<open>\<open>tx.signAndSend(signer, { nonce }).untilFinalized()\<close>\<close>

definition outcome :: "client \<Rightarrow> string \<Rightarrow> ClaimTx \<Rightarrow> txOutcome" where
  "outcome cl signer t = signAndSend cl (tx t) signer (nonce t)"

text \<open>
  \<open>Promise.allSettled(txs.map(...))\<close>: every promise ends in a result object, because the
  \<open>catch\<close> turns a rejection into one.
\<close>

definition txResults :: "client \<Rightarrow> string \<Rightarrow> ClaimTx list \<Rightarrow> TxResult list" where
  "txResults cl signer txs = map (\<lambda>t. settle t (outcome cl signer t)) txs"

text \<open>\<open>`  ${v.validator} era ${v.era}: ${v.err || 'dispatch error'}`\<close>; an empty message is falsy.\<close>

definition failedLine :: "TxResult \<Rightarrow> string" where
  "failedLine v =
     ''  '' @ validator v @ '' era '' @ showInt (era v) @ '': '' @
     (case err v of
        None \<Rightarrow> ''dispatch error''
      | Some m \<Rightarrow> if m = [] then ''dispatch error'' else m)"

definition report :: "nat \<Rightarrow> TxResult list \<Rightarrow> Report" where
  "report n results =
     \<lparr>okCount = length (filter ok results), totalCount = n,
      failedLines = map failedLine (filter (\<lambda>r. \<not> ok r) results)\<rparr>"

text \<open>
  \<open>unclaimed[0].pages[0]\<close> is \<open>undefined\<close> when the first payout has no pages; that is the
  page \<open>None\<close> of the representative call.
\<close>

definition representative :: "UnclaimedPayout \<Rightarrow> call" where
  "representative u =
     PayoutStakers (validator u) (era u) (case pages u of [] \<Rightarrow> None | p # ps \<Rightarrow> Some p)"

definition totalFee :: "client \<Rightarrow> string \<Rightarrow> UnclaimedPayout list \<Rightarrow> nat" where
  "totalFee cl signer unclaimed =
     (case unclaimed of
        [] \<Rightarrow> 0
      | u # us \<Rightarrow> paymentInfo cl (representative u) signer * length unclaimed)"

text \<open>
  \<open>submitPayouts\<close> returns nothing; the model returns the transactions it has broadcast and
  either the error it throws or the report it prints (none when the list is empty).
\<close>

definition submitPayouts ::
  "client \<Rightarrow> UnclaimedPayout list \<Rightarrow> string \<Rightarrow> ClaimTx list \<times> (submitError + Report option)" where
  "submitPayouts cl unclaimed signer =
     (if length unclaimed = 0 then ([], Inr None)
      else (case systemAccount cl signer of
              (n0, free) \<Rightarrow>
                if free < totalFee cl signer unclaimed * 2
                then ([], Inl (InsufficientBalance free (totalFee cl signer unclaimed * 2)))
                else (let txs = buildTxs n0 unclaimed;
                          results = txResults cl signer txs
                      in (txs, Inr (Some (report (length unclaimed) results))))))"

subsection \<open>Predicates used to state the properties\<close>

text \<open>
  Every key of the store is the key \<open>buildKey\<close> gives for the validator and era of the
  value stored under it. \<open>setEra\<close>, \<open>setMultipleEras\<close> and \<open>updateClaimedPages\<close> are the only
  writers, and they keep it so.
\<close>

definition keysMatchValues :: "redis \<Rightarrow> bool" where
  "keysMatchValues d = (\<forall>(k, t, s) \<in> set d. \<exists>chn. k = buildKey chn (validator s) (era s))"

text \<open>An item returned by \<open>getUnclaimedPayouts\<close> and the store entry it was computed from.\<close>

definition scannedFrom :: "redis \<Rightarrow> int \<Rightarrow> CachedUnclaimed \<Rightarrow> bool" where
  "scannedFrom d ce u =
     (\<exists>k t s. (k, t, s) \<in> set d
        \<and> (\<exists>parsed. parseKey k = Some parsed \<and> era parsed < ce)
        \<and> validator u = validator s \<and> era u = era s
        \<and> unclaimedPages u = findUnclaimed (totalPages s) (claimedPages s)
        \<and> unclaimedPages u \<noteq> [])"

text \<open>
  The exposure query of the representation the chain offers was answered, and the exposure
  is absent or has total stake zero.
\<close>

definition exposureInactive :: "client \<Rightarrow> string \<Rightarrow> int \<Rightarrow> bool" where
  "exposureInactive cl stash e =
     (if hasOverview cl
      then (case erasStakersOverview (staking cl e stash) of
              RpcOk None \<Rightarrow> True
            | RpcOk (Some overview) \<Rightarrow> total' overview = 0
            | RpcFailed msg \<Rightarrow> False)
      else (case erasStakersClipped (staking cl e stash) of
              RpcOk None \<Rightarrow> True
            | RpcOk (Some exposure) \<Rightarrow> total' exposure = 0
            | RpcFailed msg \<Rightarrow> False))"

text \<open>The exposure has nonzero total stake and the worker computes page count zero for it.\<close>

definition stakedWithoutPages :: "client \<Rightarrow> string \<Rightarrow> int \<Rightarrow> bool" where
  "stakedWithoutPages cl stash e =
     (if hasOverview cl
      then (case erasStakersOverview (staking cl e stash) of
              RpcOk (Some overview) \<Rightarrow> total' overview \<noteq> 0 \<and> pageCount overview = 0
            | _ \<Rightarrow> False)
      else (case erasStakersClipped (staking cl e stash) of
              RpcOk (Some exposure) \<Rightarrow>
                total' exposure \<noteq> 0
                \<and> (length (others exposure) + (NOMINATORS_PER_PAGE - 1)) div NOMINATORS_PER_PAGE = 0
            | _ \<Rightarrow> False))"

text \<open>
  A scan step started in cache \<open>c\<close> and ended with the pair \<open>r\<close> of cache and results: all
  results, and all store entries that were not there before, have their era in \<open>E\<close>.
\<close>

definition scannedWithin :: "int set \<Rightarrow> PayoutCache \<Rightarrow> PayoutCache \<times> UnclaimedPayout list \<Rightarrow> bool" where
  "scannedWithin E c r =
     ((\<forall>u \<in> set (snd r). era u \<in> E)
      \<and> (\<forall>x \<in> set (db (fst r)). x \<in> set (db c) \<or> era (snd (snd x)) \<in> E))"

text \<open>\<open>filter(Boolean)\<close> on the result of one era check.\<close>

definition filterBoolean ::
  "PayoutCache \<times> UnclaimedPayout option \<Rightarrow> PayoutCache \<times> UnclaimedPayout list" where
  "filterBoolean r = (fst r, case snd r of None \<Rightarrow> [] | Some u \<Rightarrow> [u])"


subsection \<open>Example chain and cache states\<close>

text \<open>
  A chain with the paged exposure representation and current era 9. In era 6 the validator
  has no exposure; in the other eras it has stake 100 and no nominators; it has claimed
  page 0 of era 7 and nothing else. Every fee estimate is 10; the signer has nonce 5 and
  free balance 20. The transaction with nonce 5 is rejected, the one with nonce 6 succeeds,
  any other is finalized with a dispatch error.
\<close>

definition exampleClient :: client where
  "exampleClient =
     \<lparr>hasOverview = True,
      staking = (\<lambda>e stash.
        \<lparr>erasStakersOverview =
           (if e = 6 then RpcOk None else RpcOk (Some \<lparr>total' = 100, pageCount = 0\<rparr>)),
         erasStakersClipped = RpcOk None,
         claimedRewards = RpcOk (Some (if e = 7 then [0] else []))\<rparr>),
      activeEra = Some 9,
      historyDepth = 2,
      paymentInfo = (\<lambda>c signer. 10),
      systemAccount = (\<lambda>signer. (5, 20)),
      signAndSend = (\<lambda>c signer n.
        if n = 5 then Failed ''boom''
        else if n = 6 then Finalized None
        else Finalized (Some ''BadOrigin''))\<rparr>"


definition emptyCache :: PayoutCache where
  "emptyCache = \<lparr>ttl = 60, db = []\<rparr>"

definition exampleCache :: PayoutCache where
  "exampleCache =
     \<lparr>ttl = 60,
      db = [(''payout:kusama:stashA:7'', 60,
             \<lparr>validator = ''stashA'', era = 7, claimedPages = [2, 0], totalPages = 4,
              lastChecked = 1\<rparr>)]\<rparr>"

text \<open>
  The end-to-end scenario of the specification: eras 10 to 12 of one stash, with 3 pages
  all claimed, 2 pages none claimed, and 1 page claimed.
\<close>

definition scenarioCache :: PayoutCache where
  "scenarioCache =
     \<lparr>ttl = 60,
      db = [(''payout:kusama:S:10'', 60,
             \<lparr>validator = ''S'', era = 10, claimedPages = [0, 1, 2], totalPages = 3,
              lastChecked = 1\<rparr>),
            (''payout:kusama:S:11'', 60,
             \<lparr>validator = ''S'', era = 11, claimedPages = [], totalPages = 2,
              lastChecked = 1\<rparr>),
            (''payout:kusama:S:12'', 60,
             \<lparr>validator = ''S'', era = 12, claimedPages = [0], totalPages = 1,
              lastChecked = 1\<rparr>)]\<rparr>"

text \<open>A glob matcher for patterns that are a literal followed by one star.\<close>

definition prefixGlob :: "string \<Rightarrow> string \<Rightarrow> bool" where
  "prefixGlob pattern key = (stripPrefix (butlast pattern) key \<noteq> None)"

section \<open>Properties\<close>

subsection \<open>Unclaimed pages\<close>

lemma findUnclaimedFrom_filter:
  "findUnclaimedFrom p n claimed unclaimed =
     unclaimed @ filter (\<lambda>q. q \<notin> set claimed) [p..<n]"
proof (induction p n claimed unclaimed rule: findUnclaimedFrom.induct)
  case (1 p n claimed unclaimed)
  show ?case
  proof (cases "p < n")
    case True
    then show ?thesis
      using "1" by (subst findUnclaimedFrom.simps) (simp add: upt_conv_Cons)
  next
    case False
    then show ?thesis
      by (subst findUnclaimedFrom.simps) simp
  qed
qed

lemma findUnclaimed_filter:
  "findUnclaimed n claimed = filter (\<lambda>q. q \<notin> set claimed) [0..<n]"
  by (simp add: findUnclaimed_def findUnclaimedFrom_filter)



subsection \<open>Keys\<close>

lemma of_char_digitChar: "d < 10 \<Longrightarrow> of_char (digitChar d) = 48 + d"
  by (simp add: digitChar_def)

lemma isDigit_digitChar: "d < 10 \<Longrightarrow> isDigit (digitChar d)"
  by (simp add: isDigit_def of_char_digitChar)

lemma showNat_digits: "list_all isDigit (showNat n) \<and> showNat n \<noteq> []"
proof (induction n rule: showNat.induct)
  case (1 n)
  show ?case
  proof (cases "n < 10")
    case True
    then show ?thesis
      by (subst (1 2) showNat.simps) (simp add: isDigit_digitChar)
  next
    case False
    then show ?thesis
      using "1" by (subst (1 2) showNat.simps) (simp add: isDigit_digitChar)
  qed
qed

lemma parseInt_snoc: "parseInt (ds @ [c]) = 10 * parseInt ds + (of_char c - 48)"
  by (simp add: parseInt_def)

text \<open>Reading back a rendered number gives the number.\<close>

lemma parseInt_showNat: "parseInt (showNat n) = n"
proof (induction n rule: showNat.induct)
  case (1 n)
  show ?case
  proof (cases "n < 10")
    case True
    then show ?thesis
      by (subst showNat.simps) (simp add: parseInt_def of_char_digitChar)
  next
    case False
    then show ?thesis
      using "1" by (subst showNat.simps) (simp add: parseInt_snoc of_char_digitChar)
  qed
qed

lemma isDigit_not_colon: "isDigit c \<Longrightarrow> c \<noteq> CHR '':''"
  by (auto simp: isDigit_def)

lemma isDigit_not_minus: "\<not> isDigit CHR ''-''"
  by (simp add: isDigit_def)

lemma colon_notin_showNat: "CHR '':'' \<notin> set (showNat n)"
  using showNat_digits [of n] isDigit_not_colon by (auto simp: list_all_iff)

lemma colon_notin_showInt: "CHR '':'' \<notin> set (showInt e)"
  by (simp add: showInt_def colon_notin_showNat)

lemma digits_showInt: "list_all isDigit (showInt e) \<Longrightarrow> 0 \<le> e"
  by (auto simp: showInt_def isDigit_not_minus split: if_splits)

lemma parseInt_showInt: "0 \<le> e \<Longrightarrow> int (parseInt (showInt e)) = e"
  by (simp add: showInt_def parseInt_showNat)

lemma splitOn_not_Nil: "splitOn sep s \<noteq> []"
  by (induction s) (auto split: list.splits)

lemma splitOn_append: "splitOn sep (xs @ sep # ys) = splitOn sep xs @ splitOn sep ys"
proof (induction xs)
  case Nil
  then show ?case by simp
next
  case (Cons c cs)
  then show ?case
    using splitOn_not_Nil [of sep cs] by (auto split: list.splits)
qed

lemma splitOn_no_sep: "sep \<notin> set ys \<Longrightarrow> splitOn sep ys = [ys]"
  by (induction ys) auto

lemma last_splitOn: "sep \<notin> set ys \<Longrightarrow> last (splitOn sep (xs @ sep # ys)) = ys"
  by (simp add: splitOn_append splitOn_no_sep)

lemma stripPrefix_append: "stripPrefix p (p @ s) = Some s"
  by (induction p) auto

text \<open>
  Whatever the chain and validator names are, a key made by \<open>buildKey\<close> that \<open>parseKey\<close>
  accepts is parsed to the era it was built from: the era is the text after the last colon.
\<close>

lemma parseKey_buildKey_era:
  assumes "parseKey (buildKey chn vld e) = Some parsed"
  shows "era parsed = e"
proof -
  let ?rest = "(chn @ '':'' @ vld) @ CHR '':'' # showInt e"
  have key: "buildKey chn vld e = ''payout:'' @ ?rest"
    by (simp add: buildKey_def KEY_PREFIX_def)
  have rest: "stripPrefix ''payout:'' (buildKey chn vld e) = Some ?rest"
    unfolding key by (rule stripPrefix_append)
  from assms rest obtain c v d where
    fields: "splitOn CHR '':'' ?rest = [c, v, d]"
    and digits: "list_all isDigit d"
    and parsed: "parsed = \<lparr>validator = v, era = int (parseInt d), chain' = c\<rparr>"
    by (auto simp: parseKey_def split: list.splits if_splits)
  have "last (splitOn CHR '':'' ?rest) = showInt e"
    by (rule last_splitOn) (rule colon_notin_showInt)
  with fields have d: "d = showInt e" by simp
  with digits have "0 \<le> e" by (simp add: digits_showInt)
  then show ?thesis
    by (simp add: parsed d parseInt_showInt)
qed

lemma word_no_colon: "list_all isWordChar w \<Longrightarrow> CHR '':'' \<notin> set w"
  by (auto simp: list_all_iff isWordChar_def Let_def)

text \<open>
  For names the pattern accepts (non-empty, of letters, digits and underscores) and a
  non-negative era, \<open>parseKey\<close> gives back what \<open>buildKey\<close> was given.
\<close>

lemma parseKey_buildKey:
  assumes "chn \<noteq> []" "list_all isWordChar chn" "vld \<noteq> []" "list_all isWordChar vld" "0 \<le> e"
  shows "parseKey (buildKey chn vld e) = Some \<lparr>validator = vld, era = e, chain' = chn\<rparr>"
proof -
  let ?rest = "chn @ CHR '':'' # (vld @ CHR '':'' # showInt e)"
  have key: "buildKey chn vld e = ''payout:'' @ ?rest"
    by (simp add: buildKey_def KEY_PREFIX_def)
  have rest: "stripPrefix ''payout:'' (buildKey chn vld e) = Some ?rest"
    unfolding key by (rule stripPrefix_append)
  have "splitOn CHR '':'' ?rest = [chn, vld, showInt e]"
    using assms
    by (simp add: splitOn_append splitOn_no_sep word_no_colon colon_notin_showInt)
  moreover have "list_all isDigit (showInt e) \<and> showInt e \<noteq> []"
    using assms(5) showNat_digits [of "nat e"] by (simp add: showInt_def)
  ultimately show ?thesis
    using assms rest by (simp add: parseKey_def parseInt_showInt)
qed

subsection \<open>The store\<close>

lemma redisGet_redisSetEx:
  "redisGet k (redisSetEx key t v d) = (if k = key then Some v else redisGet k d)"
  by (induction d) (auto simp: redisGet_def)

lemma set_redisSetEx: "set (redisSetEx key t v d) \<subseteq> insert (key, t, v) (set d)"
  by (induction d) (auto split: if_splits)

lemma redisGet_in_db: "redisGet key d = Some s \<Longrightarrow> \<exists>t. (key, t, s) \<in> set d"
  by (auto simp: redisGet_def dest: map_of_SomeD)

lemma getEra_setEra: "getEra (setEra c chn s) chn (validator s) (era s) = Some s"
  by (simp add: getEra_def setEra_def redisGet_redisSetEx)

lemma db_setEra: "x \<in> set (db (setEra c chn s)) \<Longrightarrow> x \<in> set (db c) \<or> snd (snd x) = s"
  using set_redisSetEx [of "buildKey chn (validator s) (era s)" "ttl c" s "db c"]
  by (auto simp: setEra_def)

lemma keysMatchValuesD:
  assumes "keysMatchValues d" "(k, t, s) \<in> set d"
  obtains chn where "k = buildKey chn (validator s) (era s)"
  using assms unfolding keysMatchValues_def by blast

lemma keysMatchValues_empty: "keysMatchValues []"
  by (simp add: keysMatchValues_def)

lemma keysMatchValues_redisSetEx:
  assumes "keysMatchValues d" "key = buildKey chn (validator s) (era s)"
  shows "keysMatchValues (redisSetEx key t s d)"
  unfolding keysMatchValues_def
proof (intro ballI)
  fix x
  assume "x \<in> set (redisSetEx key t s d)"
  then have "x = (key, t, s) \<or> x \<in> set d"
    using set_redisSetEx [of key t s d] by auto
  then show "case x of (k, t, s) \<Rightarrow> \<exists>chn. k = buildKey chn (validator s) (era s)"
    using assms by (auto simp: keysMatchValues_def)
qed

lemma keysMatchValues_setEra:
  "keysMatchValues (db c) \<Longrightarrow> keysMatchValues (db (setEra c chn s))"
  by (simp add: setEra_def keysMatchValues_redisSetEx)

subsection \<open>Merging claimed pages\<close>

lemma set_foldl_addKey: "set (foldl addKey ks ps) = set ks \<union> set ps"
  by (induction ps arbitrary: ks) (auto simp: addKey_def)

lemma distinct_foldl_addKey: "distinct ks \<Longrightarrow> distinct (foldl addKey ks ps)"
  by (induction ps arbitrary: ks) (auto simp: addKey_def)

text \<open>
  The list the script computes is the sorted union of the claimed pages and the new
  pages, whatever the order in which the keys of \<open>pageSet\<close> are collected.
\<close>

lemma mergedPages_sorted_union:
  "mergedPages old ps = sorted_list_of_set (set old \<union> set ps)"
proof -
  let ?ks = "foldl addKey (foldl addKey [] old) ps"
  have d: "distinct ?ks"
    by (simp add: distinct_foldl_addKey)
  have s: "set ?ks = set old \<union> set ps"
    by (simp add: set_foldl_addKey)
  have "sorted_list_of_set (set (sort ?ks)) = sort ?ks"
    using d by (intro sorted_list_of_set.idem_if_sorted_distinct) simp_all
  then show ?thesis
    using s by (simp add: mergedPages_def)
qed

lemma sort_any_order:
  "distinct ks \<Longrightarrow> distinct ks' \<Longrightarrow> set ks = set ks' \<Longrightarrow> sort ks = sort (ks' :: nat list)"
  by (intro sorted_distinct_set_unique) simp_all

text \<open>With an entry under the key the script is aborted and nothing is written.\<close>

lemma mergeScript_hit:
  "redisGet key d = Some old \<Longrightarrow>
   mergeScript key ps t d = (d, Inl (ScriptError ''attempt to call field time (a nil value)''))"
  by (simp add: mergeScript_def)

lemma mergeScript_miss: "redisGet key d = None \<Longrightarrow> mergeScript key ps t d = (d, Inr 0)"
  by (simp add: mergeScript_def)

lemma updateClaimedPages_hit:
  assumes "getEra c chn vld e = Some old"
  shows "updateClaimedPages c chn vld e ps =
           (c, Inl (ScriptError ''attempt to call field time (a nil value)''))"
  using assms by (simp add: getEra_def updateClaimedPages_def mergeScript_hit)

lemma updateClaimedPages_miss:
  assumes "getEra c chn vld e = None"
  shows "updateClaimedPages c chn vld e ps = (c, Inr False)"
  using assms by (simp add: getEra_def updateClaimedPages_def mergeScript_miss)

lemma updateClaimedPages_store: "fst (updateClaimedPages c chn vld e ps) = c"
  by (cases "getEra c chn vld e") (simp_all add: updateClaimedPages_hit updateClaimedPages_miss)

text \<open>The store invariant is kept by the merge.\<close>

lemma keysMatchValues_updateClaimedPages:
  assumes "keysMatchValues (db c)"
  shows "keysMatchValues (db (fst (updateClaimedPages c chn vld e ps)))"
  using assms by (simp add: updateClaimedPages_store)

lemma buildKey_example: "buildKey ''kusama'' ''stashA'' 7 = ''payout:kusama:stashA:7''"
  by code_simp

lemma buildKey_other: "buildKey ''kusama'' ''stashA'' 8 = ''payout:kusama:stashA:8''"
  by code_simp

lemma getEra_example:
  "getEra exampleCache ''kusama'' ''stashA'' 7 =
     Some \<lparr>validator = ''stashA'', era = 7, claimedPages = [2, 0], totalPages = 4, lastChecked = 1\<rparr>"
  by (simp add: getEra_def buildKey_example exampleCache_def redisGet_def)

lemma getEra_example_other: "getEra exampleCache ''kusama'' ''stashA'' 8 = None"
  by (simp add: getEra_def buildKey_other exampleCache_def redisGet_def)

lemma mergedPages_example: "mergedPages [2, 0] [1, 0] = [0, 1, 2]"
  by code_simp

text \<open>
  C5, at an input where the code and the claim differ. The store has the entry of era 7
  with claimed pages 2 and 0, and pages 1 and 0 are to be merged. The script computes the
  merged list 0, 1, 2 and is aborted at \<open>os.time()\<close>: \<open>updateClaimedPages\<close> throws, the
  store is as before and the entry still has the claimed pages 2 and 0. By the claim the
  entry has the union 0, 1, 2 after the merge, and a second merge leaves it so. Without
  an entry (era 8) the script returns 0 and the answer is false, as the claim says.
\<close>

theorem C5_merge_aborted_before_write:
  "updateClaimedPages exampleCache ''kusama'' ''stashA'' 7 [1, 0] =
     (exampleCache, Inl (ScriptError ''attempt to call field time (a nil value)''))
   \<and> map_option claimedPages
       (getEra (fst (updateClaimedPages exampleCache ''kusama'' ''stashA'' 7 [1, 0]))
          ''kusama'' ''stashA'' 7) = Some [2, 0]
   \<and> mergedPages [2, 0] [1, 0] = [0, 1, 2]
   \<and> updateClaimedPages exampleCache ''kusama'' ''stashA'' 8 [1, 0] = (exampleCache, Inr False)"
proof (intro conjI)
  show hit: "updateClaimedPages exampleCache ''kusama'' ''stashA'' 7 [1, 0] =
     (exampleCache, Inl (ScriptError ''attempt to call field time (a nil value)''))"
    by (rule updateClaimedPages_hit [OF getEra_example])
  show "map_option claimedPages
       (getEra (fst (updateClaimedPages exampleCache ''kusama'' ''stashA'' 7 [1, 0]))
          ''kusama'' ''stashA'' 7) = Some [2, 0]"
    unfolding hit fst_conv getEra_example by simp
  show "mergedPages [2, 0] [1, 0] = [0, 1, 2]"
    by (rule mergedPages_example)
  show "updateClaimedPages exampleCache ''kusama'' ''stashA'' 8 [1, 0] = (exampleCache, Inr False)"
    by (rule updateClaimedPages_miss [OF getEra_example_other])
qed

text \<open>
  C10, at the same input. By the claim the merge replaces the claimed pages of the entry
  by the sorted union and sets \<open>lastChecked\<close>. The script is aborted before its write: the
  entry after the call is the entry before it, with claimed pages 2 and 0 and
  \<open>lastChecked\<close> 1, and so is the whole store. The sorted union is 0, 1, 2.
\<close>

theorem C10_entry_left_unchanged:
  "getEra (fst (updateClaimedPages exampleCache ''kusama'' ''stashA'' 7 [1, 0]))
     ''kusama'' ''stashA'' 7
     = Some \<lparr>validator = ''stashA'', era = 7, claimedPages = [2, 0], totalPages = 4,
             lastChecked = 1\<rparr>
   \<and> db (fst (updateClaimedPages exampleCache ''kusama'' ''stashA'' 7 [1, 0])) = db exampleCache
   \<and> sorted_list_of_set (set [2, 0] \<union> set [1, 0 :: nat]) = [0, 1, 2]"
proof (intro conjI)
  show "getEra (fst (updateClaimedPages exampleCache ''kusama'' ''stashA'' 7 [1, 0]))
     ''kusama'' ''stashA'' 7
     = Some \<lparr>validator = ''stashA'', era = 7, claimedPages = [2, 0], totalPages = 4,
             lastChecked = 1\<rparr>"
    unfolding updateClaimedPages_store by (rule getEra_example)
  show "db (fst (updateClaimedPages exampleCache ''kusama'' ''stashA'' 7 [1, 0])) = db exampleCache"
    unfolding updateClaimedPages_store by (rule refl)
  show "sorted_list_of_set (set [2, 0] \<union> set [1, 0 :: nat]) = [0, 1, 2]"
    unfolding mergedPages_sorted_union [symmetric] by (rule mergedPages_example)
qed

subsection \<open>Scanning the cache for unclaimed payouts\<close>

text \<open>The cursor loop visits the keys from the cursor position on, batch by batch.\<close>

lemma scanLoop_foldl:
  "scanLoop glob c ce pat cursor acc =
     foldl (scanEntry c ce) acc (filter (glob pat) (drop cursor (map fst (db c))))"
proof (induction glob c ce pat cursor acc rule: scanLoop.induct)
  case (1 glob c ce pat cursor acc)
  let ?ks = "map fst (db c)"
  show ?case
  proof (cases "cursor + SCAN_BATCH < length (db c)")
    case True
    then have nxt: "fst (redisScan glob (db c) cursor pat SCAN_BATCH) = cursor + SCAN_BATCH"
      and nz: "fst (redisScan glob (db c) cursor pat SCAN_BATCH) \<noteq> 0"
      by (simp_all add: redisScan_def SCAN_BATCH_def)
    have split: "drop cursor ?ks = take SCAN_BATCH (drop cursor ?ks) @ drop (cursor + SCAN_BATCH) ?ks"
      by (metis add.commute append_take_drop_id drop_drop)
    have "scanLoop glob c ce pat cursor acc =
            scanLoop glob c ce pat (cursor + SCAN_BATCH)
              (foldl (scanEntry c ce) acc (filter (glob pat) (take SCAN_BATCH (drop cursor ?ks))))"
      using nz nxt by (subst scanLoop.simps) (simp add: redisScan_def)
    also have "\<dots> = foldl (scanEntry c ce)
                      (foldl (scanEntry c ce) acc (filter (glob pat) (take SCAN_BATCH (drop cursor ?ks))))
                      (filter (glob pat) (drop (cursor + SCAN_BATCH) ?ks))"
      using "1" [OF nz] nxt by (simp add: redisScan_def)
    also have "\<dots> = foldl (scanEntry c ce) acc (filter (glob pat) (drop cursor ?ks))"
      by (subst (2) split) (simp only: filter_append foldl_append)
    finally show ?thesis .
  next
    case False
    then have z: "fst (redisScan glob (db c) cursor pat SCAN_BATCH) = 0"
      by (simp add: redisScan_def)
    have "take SCAN_BATCH (drop cursor ?ks) = drop cursor ?ks"
      using False by simp
    then show ?thesis
      using z by (subst scanLoop.simps) (simp add: redisScan_def)
  qed
qed

lemma scannedFromD:
  assumes "scannedFrom d ce u"
  obtains k t s parsed where "(k, t, s) \<in> set d" "parseKey k = Some parsed" "era parsed < ce"
    "validator u = validator s" "era u = era s"
    "unclaimedPages u = findUnclaimed (totalPages s) (claimedPages s)"
    "unclaimedPages u \<noteq> []"
  using assms unfolding scannedFrom_def by blast

lemma scanEntry_sound:
  assumes "\<forall>u \<in> set acc. scannedFrom (db c) ce u"
  shows "\<forall>u \<in> set (scanEntry c ce acc key). scannedFrom (db c) ce u"
proof (cases "redisGet key (db c)")
  case None
  then show ?thesis using assms by (simp add: scanEntry_def)
next
  case (Some s)
  then obtain t where entry: "(key, t, s) \<in> set (db c)"
    using redisGet_in_db by blast
  show ?thesis
  proof (cases "\<exists>parsed. parseKey key = Some parsed \<and> era parsed < ce
                  \<and> findUnclaimed (totalPages s) (claimedPages s) \<noteq> []")
    case True
    then obtain parsed where p: "parseKey key = Some parsed" "era parsed < ce"
      and ne: "findUnclaimed (totalPages s) (claimedPages s) \<noteq> []"
      by blast
    let ?u = "\<lparr>validator = validator s, era = era s,
               unclaimedPages = findUnclaimed (totalPages s) (claimedPages s)\<rparr>"
    have "scanEntry c ce acc key = acc @ [?u]"
      using Some p ne by (simp add: scanEntry_def)
    moreover have "scannedFrom (db c) ce ?u"
      unfolding scannedFrom_def using entry p ne by auto
    ultimately show ?thesis
      using assms by simp
  next
    case False
    then have "scanEntry c ce acc key = acc"
      using Some by (auto simp: scanEntry_def split: option.splits)
    then show ?thesis
      using assms by simp
  qed
qed

lemma foldl_scanEntry_sound:
  "\<forall>u \<in> set acc. scannedFrom (db c) ce u \<Longrightarrow>
   \<forall>u \<in> set (foldl (scanEntry c ce) acc keys). scannedFrom (db c) ce u"
proof (induction keys arbitrary: acc)
  case Nil
  then show ?case by simp
next
  case (Cons k keys)
  then show ?case
    using scanEntry_sound [of acc c ce k] by simp
qed

lemma getUnclaimedPayouts_scannedFrom:
  "\<forall>u \<in> set (getUnclaimedPayouts glob c chn ce). scannedFrom (db c) ce u"
  unfolding getUnclaimedPayouts_def scanLoop_foldl
  by (rule foldl_scanEntry_sound) simp

text \<open>
  C7. The empty store has keys that match their values, and \<open>setEra\<close>, the merge and a
  scan keep it so. In a store whose keys match their values, every item returned by
  \<open>getUnclaimedPayouts\<close> has an era below the current era and is computed from a stored
  entry: it carries the entry's validator and era, and its pages are the entry's
  \<open>[0, totalPages)\<close> without the claimed pages. The pages are never empty, so an entry
  whose claimed pages cover \<open>[0, totalPages)\<close>, one with no pages included, is the source
  of no item. This holds for every glob matcher of the server.
\<close>

theorem C7_getUnclaimedPayouts_sound:
  assumes "keysMatchValues (db c)"
  shows "\<forall>u \<in> set (getUnclaimedPayouts glob c chn currentEra).
           era u < currentEra
           \<and> unclaimedPages u \<noteq> []
           \<and> (\<exists>k t s. (k, t, s) \<in> set (db c)
                 \<and> validator u = validator s \<and> era u = era s
                 \<and> unclaimedPages u = findUnclaimed (totalPages s) (claimedPages s)
                 \<and> set (unclaimedPages u) = {0..<totalPages s} - set (claimedPages s)
                 \<and> \<not> {0..<totalPages s} \<subseteq> set (claimedPages s))"
proof
  fix u
  assume "u \<in> set (getUnclaimedPayouts glob c chn currentEra)"
  with getUnclaimedPayouts_scannedFrom [of glob c chn currentEra]
  have "scannedFrom (db c) currentEra u" ..
  then obtain k t s parsed where
    entry: "(k, t, s) \<in> set (db c)"
    and parsed: "parseKey k = Some parsed" "era parsed < currentEra"
    and u: "validator u = validator s" "era u = era s"
           "unclaimedPages u = findUnclaimed (totalPages s) (claimedPages s)"
           "unclaimedPages u \<noteq> []"
    by (rule scannedFromD)
  from assms entry obtain chn' where "k = buildKey chn' (validator s) (era s)"
    by (rule keysMatchValuesD)
  with parsed have "era s < currentEra"
    using parseKey_buildKey_era [of chn' "validator s" "era s" parsed] by simp
  then have before: "era u < currentEra"
    by (simp only: u(2))
  have "set (findUnclaimed (totalPages s) (claimedPages s))
          = {0..<totalPages s} - set (claimedPages s)"
    by (auto simp: findUnclaimed_filter)
  then have diff: "set (unclaimedPages u) = {0..<totalPages s} - set (claimedPages s)"
    by (simp only: u(3))
  have notfull: "\<not> {0..<totalPages s} \<subseteq> set (claimedPages s)"
  proof
    assume "{0..<totalPages s} \<subseteq> set (claimedPages s)"
    then have "{0..<totalPages s} - set (claimedPages s) = {}"
      by (simp only: Diff_eq_empty_iff)
    then have "set (unclaimedPages u) = {}"
      by (simp only: diff)
    with u(4) show False by simp
  qed
  have src: "(k, t, s) \<in> set (db c)
                 \<and> validator u = validator s \<and> era u = era s
                 \<and> unclaimedPages u = findUnclaimed (totalPages s) (claimedPages s)
                 \<and> set (unclaimedPages u) = {0..<totalPages s} - set (claimedPages s)
                 \<and> \<not> {0..<totalPages s} \<subseteq> set (claimedPages s)"
    by (intro conjI entry u(1) u(2) u(3) diff notfull)
  show "era u < currentEra
           \<and> unclaimedPages u \<noteq> []
           \<and> (\<exists>k t s. (k, t, s) \<in> set (db c)
                 \<and> validator u = validator s \<and> era u = era s
                 \<and> unclaimedPages u = findUnclaimed (totalPages s) (claimedPages s)
                 \<and> set (unclaimedPages u) = {0..<totalPages s} - set (claimedPages s)
                 \<and> \<not> {0..<totalPages s} \<subseteq> set (claimedPages s))"
    by (intro conjI exI [of _ k] exI [of _ t] exI [of _ s] before u(4) src)
qed

lemma scenario_keys:
  "''payout:kusama:S:10'' = buildKey ''kusama'' ''S'' 10"
  "''payout:kusama:S:11'' = buildKey ''kusama'' ''S'' 11"
  "''payout:kusama:S:12'' = buildKey ''kusama'' ''S'' 12"
  by code_simp+

lemma scenario_parsed:
  "parseKey ''payout:kusama:S:10'' = Some \<lparr>validator = ''S'', era = 10, chain' = ''kusama''\<rparr>"
  "parseKey ''payout:kusama:S:11'' = Some \<lparr>validator = ''S'', era = 11, chain' = ''kusama''\<rparr>"
  "parseKey ''payout:kusama:S:12'' = Some \<lparr>validator = ''S'', era = 12, chain' = ''kusama''\<rparr>"
  by code_simp+

lemma scenario_keysMatchValues: "keysMatchValues (db scenarioCache)"
  unfolding keysMatchValues_def scenarioCache_def
  using scenario_keys by auto

lemma scenario_scan:
  "getUnclaimedPayouts prefixGlob scenarioCache ''kusama'' 13 =
     [\<lparr>validator = ''S'', era = 11, unclaimedPages = [0, 1]\<rparr>]"
proof -
  have keys: "filter (prefixGlob (KEY_PREFIX @ ''kusama'' @ '':*''))
                (drop 0 (map fst (db scenarioCache))) =
              [''payout:kusama:S:10'', ''payout:kusama:S:11'', ''payout:kusama:S:12'']"
    by (simp add: scenarioCache_def prefixGlob_def KEY_PREFIX_def)
  have e10: "scanEntry scenarioCache 13 acc ''payout:kusama:S:10'' = acc" for acc
    by (simp add: scanEntry_def scenario_parsed scenarioCache_def redisGet_def
        findUnclaimed_filter upt_rec)
  have e11: "scanEntry scenarioCache 13 acc ''payout:kusama:S:11'' =
               acc @ [\<lparr>validator = ''S'', era = 11, unclaimedPages = [0, 1]\<rparr>]" for acc
    by (simp add: scanEntry_def scenario_parsed scenarioCache_def redisGet_def
        findUnclaimed_filter upt_rec)
  have e12: "scanEntry scenarioCache 13 acc ''payout:kusama:S:12'' = acc" for acc
    by (simp add: scanEntry_def scenario_parsed scenarioCache_def redisGet_def
        findUnclaimed_filter upt_rec)
  show ?thesis
    unfolding getUnclaimedPayouts_def scanLoop_foldl keys
    by (simp add: e10 e11 e12)
qed

text \<open>
  The scenario of the specification with current era 13: only era 11 is returned, with
  pages 0 and 1; eras 10 and 12 are fully claimed.
\<close>

theorem C7_getUnclaimedPayouts_scenario:
  "keysMatchValues (db scenarioCache)
   \<and> getUnclaimedPayouts prefixGlob scenarioCache ''kusama'' 13 =
       [\<lparr>validator = ''S'', era = 11, unclaimedPages = [0, 1]\<rparr>]
   \<and> era \<lparr>validator = ''S'', era = 11, unclaimedPages = [0, 1 :: nat]\<rparr> < 13"
  using C7_getUnclaimedPayouts_sound [OF scenario_keysMatchValues, of prefixGlob "''kusama''" 13]
    scenario_keysMatchValues
  by (simp add: scenario_scan)

subsection \<open>The era check of the worker\<close>

lemma eraCheck_hit:
  assumes "useCache" "getEra c chn stash e = Some cached"
  shows "eraCheck cl useCache chn now stash c e =
           (c, if findUnclaimed (totalPages cached) (claimedPages cached) \<noteq> []
               then Some \<lparr>validator = stash, era = e,
                          pages = findUnclaimed (totalPages cached) (claimedPages cached)\<rparr>
               else None)"
  using assms by (simp add: eraCheck_def)

lemma eraCheck_inactive:
  assumes "\<not> useCache \<or> getEra c chn stash e = None" "exposureInactive cl stash e"
  shows "eraCheck cl useCache chn now stash c e = inactiveEra useCache chn now stash c e"
  using assms
  by (auto simp: eraCheck_def exposureInactive_def split: rpc.splits option.splits if_splits)

lemma eraCheck_staked:
  assumes "\<not> useCache \<or> getEra c chn stash e = None" "stakedWithoutPages cl stash e"
  shows "\<exists>total0. total0 > 0 \<and>
           eraCheck cl useCache chn now stash c e =
             resolveClaims cl useCache chn now stash c e total0 0"
  using assms
  by (auto simp: eraCheck_def stakedWithoutPages_def split: rpc.splits option.splits if_splits)

text \<open>
  C8. When the cache does not answer (it is off, or has no entry) and the exposure is
  absent or has total stake zero, the era check gives no unclaimed payout and, with the
  cache on, stores the status with no pages and no claimed pages. From then on an era
  check with the cache on answers from that entry, whatever the chain says: no payout.
\<close>

theorem C8_inactive_era_negative_result:
  assumes "\<not> useCache \<or> getEra c chn stash e = None"
    and "exposureInactive cl stash e"
  shows "eraCheck cl useCache chn now stash c e =
           (if useCache
            then setEra c chn \<lparr>validator = stash, era = e, claimedPages = [], totalPages = 0,
                                lastChecked = now\<rparr>
            else c, None)
         \<and> (useCache \<longrightarrow>
              getEra (fst (eraCheck cl useCache chn now stash c e)) chn stash e =
                Some \<lparr>validator = stash, era = e, claimedPages = [], totalPages = 0,
                      lastChecked = now\<rparr>
              \<and> (\<forall>cl' now'.
                    eraCheck cl' True chn now' stash (fst (eraCheck cl useCache chn now stash c e)) e =
                      (fst (eraCheck cl useCache chn now stash c e), None)))"
proof -
  let ?s = "\<lparr>validator = stash, era = e, claimedPages = [], totalPages = 0,
               lastChecked = now\<rparr>"
  have r: "eraCheck cl useCache chn now stash c e =
             (if useCache then setEra c chn ?s else c, None)"
    using eraCheck_inactive [OF assms] by (simp add: inactiveEra_def)
  have g: "getEra (setEra c chn ?s) chn stash e = Some ?s"
    using getEra_setEra [of c chn ?s] by simp
  have h: "eraCheck cl' True chn now' stash (setEra c chn ?s) e = (setEra c chn ?s, None)"
    for cl' now'
    using eraCheck_hit [of True "setEra c chn ?s" chn stash e ?s cl' now'] g
    by (simp add: findUnclaimed_filter)
  show ?thesis
  proof (cases useCache)
    case True
    then show ?thesis using r by (simp add: g h)
  next
    case False
    then show ?thesis using r by simp
  qed
qed

text \<open>Era 6 of the example chain: no exposure, so the status with no pages is cached.\<close>

theorem C8_inactive_era_example:
  "exposureInactive exampleClient ''stashA'' 6
   \<and> eraCheck exampleClient True ''kusama'' 1 ''stashA'' emptyCache 6 =
       (setEra emptyCache ''kusama''
          \<lparr>validator = ''stashA'', era = 6, claimedPages = [], totalPages = 0, lastChecked = 1\<rparr>,
        None)
   \<and> getEra (fst (eraCheck exampleClient True ''kusama'' 1 ''stashA'' emptyCache 6))
         ''kusama'' ''stashA'' 6 =
       Some \<lparr>validator = ''stashA'', era = 6, claimedPages = [], totalPages = 0, lastChecked = 1\<rparr>"
proof -
  have m: "\<not> True \<or> getEra emptyCache ''kusama'' ''stashA'' 6 = None"
    by (simp add: getEra_def emptyCache_def redisGet_def)
  have i: "exposureInactive exampleClient ''stashA'' 6"
    by (simp add: exposureInactive_def exampleClient_def)
  note c8 = C8_inactive_era_negative_result [OF m i, of 1]
  have r: "eraCheck exampleClient True ''kusama'' 1 ''stashA'' emptyCache 6 =
       (setEra emptyCache ''kusama''
          \<lparr>validator = ''stashA'', era = 6, claimedPages = [], totalPages = 0, lastChecked = 1\<rparr>,
        None)"
    using c8 [THEN conjunct1] by simp
  have g: "getEra (fst (eraCheck exampleClient True ''kusama'' 1 ''stashA'' emptyCache 6))
         ''kusama'' ''stashA'' 6 =
       Some \<lparr>validator = ''stashA'', era = 6, claimedPages = [], totalPages = 0, lastChecked = 1\<rparr>"
    using c8 [THEN conjunct2] by simp
  show ?thesis
    by (intro conjI i r g)
qed

text \<open>
  C3, as the worker does it. The page count is forced to one only when the page count is
  zero, the stake is nonzero and no page is recorded as claimed: then the status has one
  page and page 0 is unclaimed. When a page is recorded as claimed, the guard
  \<open>claimedPages.length === 0\<close> keeps the page count at zero, the status has no pages and
  nothing is unclaimed.
\<close>

theorem C3_staked_without_nominators:
  assumes "\<not> useCache \<or> getEra c chn stash e = None"
    and "stakedWithoutPages cl stash e"
    and "claimedRewards (staking cl e stash) = RpcOk claimed"
  shows "(claimed = None \<or> claimed = Some [] \<longrightarrow>
            eraCheck cl useCache chn now stash c e =
              (if useCache
               then setEra c chn \<lparr>validator = stash, era = e, claimedPages = [],
                                   totalPages = 1, lastChecked = now\<rparr>
               else c,
               Some \<lparr>validator = stash, era = e, pages = [0]\<rparr>))
         \<and> (\<forall>ps. claimed = Some ps \<and> ps \<noteq> [] \<longrightarrow>
               eraCheck cl useCache chn now stash c e =
                 (if useCache
                  then setEra c chn \<lparr>validator = stash, era = e, claimedPages = ps,
                                      totalPages = 0, lastChecked = now\<rparr>
                  else c,
                  None))"
proof -
  from eraCheck_staked [OF assms(1,2), of now] obtain total0 where
    t: "total0 > 0"
    and r: "eraCheck cl useCache chn now stash c e =
              resolveClaims cl useCache chn now stash c e total0 0"
    by auto
  have one: "findUnclaimed (Suc 0) [] = [0]"
    by (simp add: findUnclaimed_filter)
  have none: "findUnclaimed 0 ps = []" for ps
    by (simp add: findUnclaimed_filter)
  show ?thesis
    unfolding r using t assms(3)
    by (auto simp: resolveClaims_def Let_def one none)
qed

text \<open>
  Era 7 of the example chain: stake 100, page count zero, page 0 claimed. The status that
  is cached has zero pages, not one.
\<close>

theorem C3_claimed_page_counterexample:
  "stakedWithoutPages exampleClient ''stashA'' 7
   \<and> getEra emptyCache ''kusama'' ''stashA'' 7 = None
   \<and> map_option totalPages
        (getEra (fst (eraCheck exampleClient True ''kusama'' 1 ''stashA'' emptyCache 7))
           ''kusama'' ''stashA'' 7) = Some 0"
  by (simp add: stakedWithoutPages_def exampleClient_def emptyCache_def eraCheck_def
      resolveClaims_def getEra_def setEra_def redisGet_def Let_def)

text \<open>Era 8 of the example chain: the same exposure with nothing claimed.\<close>

theorem C3_staked_without_nominators_example:
  "stakedWithoutPages exampleClient ''stashA'' 8
   \<and> eraCheck exampleClient True ''kusama'' 1 ''stashA'' emptyCache 8 =
       (setEra emptyCache ''kusama''
          \<lparr>validator = ''stashA'', era = 8, claimedPages = [], totalPages = 1, lastChecked = 1\<rparr>,
        Some \<lparr>validator = ''stashA'', era = 8, pages = [0]\<rparr>)"
proof -
  have m: "\<not> True \<or> getEra emptyCache ''kusama'' ''stashA'' 8 = None"
    by (simp add: getEra_def emptyCache_def redisGet_def)
  have s: "stakedWithoutPages exampleClient ''stashA'' 8"
    by (simp add: stakedWithoutPages_def exampleClient_def)
  have q: "claimedRewards (staking exampleClient 8 ''stashA'') = RpcOk (Some [])"
    by (simp add: exampleClient_def)
  from C3_staked_without_nominators [OF m s q, of 1] s show ?thesis
    by simp
qed

subsection \<open>The era range of a scan\<close>

lemma scannedWithin_refl: "scannedWithin E c (c, [])"
  by (simp add: scannedWithin_def)

lemma scannedWithin_mono: "scannedWithin E c r \<Longrightarrow> E \<subseteq> F \<Longrightarrow> scannedWithin F c r"
  unfolding scannedWithin_def by (meson subsetD)

lemma scannedWithin_trans:
  assumes "scannedWithin E c (c1, rs1)" "scannedWithin E c1 (c2, rs2)"
    and "set rs \<subseteq> set rs1 \<union> set rs2"
  shows "scannedWithin E c (c2, rs)"
  using assms unfolding scannedWithin_def by (simp add: subset_iff) metis

lemma inactiveEra_within:
  "scannedWithin {e} c (filterBoolean (inactiveEra useCache chn now stash c e))"
  by (auto simp: scannedWithin_def filterBoolean_def inactiveEra_def dest: db_setEra)

lemma resolveClaims_within:
  "scannedWithin {e} c
     (filterBoolean (resolveClaims cl useCache chn now stash c e total0 pageCount0))"
  by (auto simp: scannedWithin_def filterBoolean_def resolveClaims_def Let_def
      dest: db_setEra split: rpc.splits)

text \<open>An era check reports and caches its own era only, on a cache hit as on a miss.\<close>

lemma eraCheck_within:
  "scannedWithin {e} c (filterBoolean (eraCheck cl useCache chn now stash c e))"
proof (cases "if useCache then getEra c chn stash e else None")
  case None
  have "scannedWithin {e} c (filterBoolean (c, None))"
    by (simp add: filterBoolean_def scannedWithin_def)
  with None show ?thesis
    using inactiveEra_within [of e c useCache chn now stash]
      resolveClaims_within [of e c cl useCache chn now stash]
    by (simp add: eraCheck_def split: rpc.splits option.splits)
next
  case (Some cached)
  then show ?thesis
    by (simp add: eraCheck_def scannedWithin_def filterBoolean_def Let_def)
qed

lemma eraChecks_within:
  "scannedWithin (set es) c (eraChecks cl useCache chn now stash c es)"
proof (induction es arbitrary: c)
  case Nil
  then show ?case by (simp add: scannedWithin_refl)
next
  case (Cons e es)
  obtain c1 r where r: "eraCheck cl useCache chn now stash c e = (c1, r)"
    by (cases "eraCheck cl useCache chn now stash c e")
  obtain c2 rs where rs: "eraChecks cl useCache chn now stash c1 es = (c2, rs)"
    by (cases "eraChecks cl useCache chn now stash c1 es")
  have "scannedWithin {e} c (c1, case r of None \<Rightarrow> [] | Some u \<Rightarrow> [u])"
    using eraCheck_within [of e c cl useCache chn now stash] r by (simp add: filterBoolean_def)
  then have a: "scannedWithin (set (e # es)) c (c1, case r of None \<Rightarrow> [] | Some u \<Rightarrow> [u])"
    by (rule scannedWithin_mono) simp
  have "scannedWithin (set es) c1 (c2, rs)"
    using Cons.IH [of c1] rs by simp
  then have b: "scannedWithin (set (e # es)) c1 (c2, rs)"
    by (rule scannedWithin_mono) auto
  have "scannedWithin (set (e # es)) c (c2, case r of None \<Rightarrow> rs | Some u \<Rightarrow> u # rs)"
    using a b by (rule scannedWithin_trans) (auto split: option.splits)
  then show ?case
    by (simp add: r rs)
qed

lemma onMessage_within:
  "scannedWithin {startEra..endEra} c
     (onMessage cl useCache chn now startEra endEra c stashes)"
proof (induction stashes arbitrary: c)
  case Nil
  then show ?case by (simp add: scannedWithin_refl)
next
  case (Cons stash stashes)
  obtain c1 rs1 where r1:
    "eraChecks cl useCache chn now stash c [startEra..endEra] = (c1, rs1)"
    by (cases "eraChecks cl useCache chn now stash c [startEra..endEra]")
  obtain c2 rs2 where r2:
    "onMessage cl useCache chn now startEra endEra c1 stashes = (c2, rs2)"
    by (cases "onMessage cl useCache chn now startEra endEra c1 stashes")
  have a: "scannedWithin {startEra..endEra} c (c1, rs1)"
    using eraChecks_within [of "[startEra..endEra]" c cl useCache chn now stash] r1 by simp
  have b: "scannedWithin {startEra..endEra} c1 (c2, rs2)"
    using Cons.IH [of c1] r2 by simp
  have "scannedWithin {startEra..endEra} c (c2, rs1 @ rs2)"
    using a b by (rule scannedWithin_trans) simp
  then show ?case
    by (simp add: r1 r2)
qed

lemma runWorkers_within:
  "scannedWithin {startEra..endEra} c
     (case runWorkers cl useCache chn now startEra endEra c cs of
        (c', results) \<Rightarrow> (c', concat results))"
proof (induction cs arbitrary: c)
  case Nil
  then show ?case by (simp add: scannedWithin_refl)
next
  case (Cons chunk cs)
  obtain c1 rs1 where r1:
    "onMessage cl useCache chn now startEra endEra c chunk = (c1, rs1)"
    by (cases "onMessage cl useCache chn now startEra endEra c chunk")
  obtain c2 rs2 where r2:
    "runWorkers cl useCache chn now startEra endEra c1 cs = (c2, rs2)"
    by (cases "runWorkers cl useCache chn now startEra endEra c1 cs")
  have a: "scannedWithin {startEra..endEra} c (c1, rs1)"
    using onMessage_within [of startEra endEra c cl useCache chn now chunk] r1 by simp
  have b: "scannedWithin {startEra..endEra} c1 (c2, concat rs2)"
    using Cons.IH [of c1] r2 by simp
  have "scannedWithin {startEra..endEra} c (c2, rs1 @ concat rs2)"
    using a b by (rule scannedWithin_trans) simp
  then show ?case
    by (simp add: r1 r2)
qed

lemma scanWithWorkersCustomRange_within:
  "scannedWithin {startEra..endEra} c
     (scanWithWorkersCustomRange cl now stashes chn startEra endEra workers useCache c)"
  unfolding scanWithWorkersCustomRange_def by (rule runWorkers_within)

text \<open>With the cache off, a scan is the list of its era checks and leaves the cache alone.\<close>

lemma eraCheck_uncached_fst: "fst (eraCheck cl False chn now stash c e) = c"
  by (simp add: eraCheck_def inactiveEra_def resolveClaims_def Let_def
      split: rpc.splits option.splits)

lemma eraChecks_uncached:
  "eraChecks cl False chn now stash c es =
     (c, List.map_filter (\<lambda>e. snd (eraCheck cl False chn now stash c e)) es)"
proof (induction es)
  case Nil
  then show ?case by (simp add: List.map_filter_simps)
next
  case (Cons e es)
  obtain r where r: "eraCheck cl False chn now stash c e = (c, r)"
    using eraCheck_uncached_fst [of cl chn now stash c e]
    by (cases "eraCheck cl False chn now stash c e") simp
  show ?case
    by (simp add: r Cons.IH List.map_filter_simps split: option.splits)
qed

lemma onMessage_uncached:
  "onMessage cl False chn now startEra endEra c stashes =
     (c, concat (map (\<lambda>stash.
            List.map_filter (\<lambda>e. snd (eraCheck cl False chn now stash c e)) [startEra..endEra])
          stashes))"
  by (induction stashes) (simp_all add: eraChecks_uncached)

lemma runWorkers_uncached:
  "runWorkers cl False chn now startEra endEra c cs =
     (c, map (\<lambda>chunk. snd (onMessage cl False chn now startEra endEra c chunk)) cs)"
  by (induction cs) (simp_all add: onMessage_uncached)

lemma scanWithWorkersCustomRange_uncached:
  "scanWithWorkersCustomRange cl now stashes chn startEra endEra workers False c =
     (c, concat (map (\<lambda>chunk. concat (map (\<lambda>stash.
            List.map_filter (\<lambda>e. snd (eraCheck cl False chn now stash c e)) [startEra..endEra])
          chunk)) (chunks workers stashes)))"
  by (simp add: scanWithWorkersCustomRange_def runWorkers_uncached onMessage_uncached)

text \<open>The chunks hold the stashes, all of them and nothing else.\<close>

lemma set_chunks:
  assumes "0 < workers"
  shows "set (concat (chunks workers stashes)) = set stashes"
proof
  show "set (concat (chunks workers stashes)) \<subseteq> set stashes"
    by (auto simp: chunks_def in_set_enumerate_eq)
next
  show "set stashes \<subseteq> set (concat (chunks workers stashes))"
  proof
    fix s
    assume "s \<in> set stashes"
    then obtain idx where idx: "idx < length stashes" "stashes ! idx = s"
      by (auto simp: in_set_conv_nth)
    then have "(idx, s) \<in> set (enumerate 0 stashes)"
      by (simp add: in_set_enumerate_eq)
    moreover have "idx mod workers < workers"
      using assms by simp
    ultimately show "s \<in> set (concat (chunks workers stashes))"
      unfolding chunks_def
      by (auto intro!: bexI [of _ "idx mod workers"] image_eqI [of _ snd "(idx, s)"])
  qed
qed

text \<open>
  C9. With current era \<open>K\<close> and history depth \<open>D\<close>, a scan without a custom range is the
  scan of the eras from \<open>max 0 (K - D)\<close> to \<open>K - 1\<close>; \<open>scanWithWorkers\<close> computes the same
  range. Every unclaimed payout it returns, and every status it writes to the cache, has
  its era in that range, so never era \<open>K\<close>. Entries that were in the cache before the scan
  are not the scan's. With the cache off the result is the list of the era checks of every
  stash of every chunk for every era of the range, in that order: no era of the range is
  left out.
\<close>

theorem C9_default_range_excludes_current_era:
  assumes "activeEra cl = Some K" and "historyDepth cl = D"
  shows "scanPayouts cl now stashes chn workers useCache None None c =
           Inr (scanWithWorkersCustomRange cl now stashes chn (max 0 (K - D)) (K - 1)
                  workers useCache c)
         \<and> scanWithWorkers cl now stashes chn K D workers useCache c =
             scanWithWorkersCustomRange cl now stashes chn (max 0 (K - D)) (K - 1)
               workers useCache c
         \<and> (\<forall>c' results.
               scanPayouts cl now stashes chn workers useCache None None c = Inr (c', results)
               \<longrightarrow> (\<forall>u \<in> set results.
                      max 0 (K - D) \<le> era u \<and> era u \<le> K - 1 \<and> era u \<noteq> K)
                   \<and> (\<forall>x \<in> set (db c').
                        x \<in> set (db c)
                        \<or> (max 0 (K - D) \<le> era (snd (snd x)) \<and> era (snd (snd x)) \<le> K - 1
                           \<and> era (snd (snd x)) \<noteq> K)))
         \<and> scanPayouts cl now stashes chn workers False None None c =
             Inr (c, concat (map (\<lambda>chunk. concat (map (\<lambda>stash.
                    List.map_filter (\<lambda>e. snd (eraCheck cl False chn now stash c e))
                      [max 0 (K - D)..K - 1])
                  chunk)) (chunks workers stashes)))"
proof -
  let ?scan = "scanWithWorkersCustomRange cl now stashes chn (max 0 (K - D)) (K - 1)
                 workers useCache c"
  have p: "scanPayouts cl now stashes chn workers useCache None None c = Inr ?scan"
    using assms by (simp add: scanPayouts_def scanRange_def)
  have w: "scanWithWorkers cl now stashes chn K D workers useCache c = ?scan"
    by (simp add: scanWithWorkers_def scanWithWorkersCustomRange_def)
  have "scannedWithin {max 0 (K - D)..K - 1} c ?scan"
    by (rule scanWithWorkersCustomRange_within)
  then have r: "(\<forall>u \<in> set (snd ?scan).
                    max 0 (K - D) \<le> era u \<and> era u \<le> K - 1 \<and> era u \<noteq> K)
                \<and> (\<forall>x \<in> set (db (fst ?scan)).
                      x \<in> set (db c)
                      \<or> (max 0 (K - D) \<le> era (snd (snd x)) \<and> era (snd (snd x)) \<le> K - 1
                         \<and> era (snd (snd x)) \<noteq> K))"
    unfolding scannedWithin_def by auto
  have bounds: "\<forall>c' results.
               scanPayouts cl now stashes chn workers useCache None None c = Inr (c', results)
               \<longrightarrow> (\<forall>u \<in> set results.
                      max 0 (K - D) \<le> era u \<and> era u \<le> K - 1 \<and> era u \<noteq> K)
                   \<and> (\<forall>x \<in> set (db c').
                        x \<in> set (db c)
                        \<or> (max 0 (K - D) \<le> era (snd (snd x)) \<and> era (snd (snd x)) \<le> K - 1
                           \<and> era (snd (snd x)) \<noteq> K))"
    unfolding p using r by auto
  have off: "scanPayouts cl now stashes chn workers False None None c =
             Inr (c, concat (map (\<lambda>chunk. concat (map (\<lambda>stash.
                    List.map_filter (\<lambda>e. snd (eraCheck cl False chn now stash c e))
                      [max 0 (K - D)..K - 1])
                  chunk)) (chunks workers stashes)))"
    using assms
    by (simp add: scanPayouts_def scanRange_def scanWithWorkersCustomRange_uncached)
  show ?thesis
    by (intro conjI p w bounds off)
qed

lemma example_eraCheck_7:
  "eraCheck exampleClient False ''kusama'' now ''stashA'' emptyCache 7 = (emptyCache, None)"
  by (simp add: eraCheck_def exampleClient_def resolveClaims_def findUnclaimed_filter Let_def)

lemma example_eraCheck_8:
  "eraCheck exampleClient False ''kusama'' now ''stashA'' emptyCache 8 =
     (emptyCache, Some \<lparr>validator = ''stashA'', era = 8, pages = [0]\<rparr>)"
  by (simp add: eraCheck_def exampleClient_def resolveClaims_def findUnclaimed_filter Let_def)

lemma example_scan:
  "scanWithWorkersCustomRange exampleClient 5 [''stashA''] ''kusama'' 7 8 2 False emptyCache =
     (emptyCache, [\<lparr>validator = ''stashA'', era = 8, pages = [0]\<rparr>])"
proof -
  have c: "chunks 2 [''stashA''] = [[''stashA''], []]"
    by (simp add: chunks_def upt_rec)
  have e: "[7..8] = [7, 8 :: int]"
    by (simp add: upto_rec1)
  show ?thesis
    by (simp add: scanWithWorkersCustomRange_def c e example_eraCheck_7 example_eraCheck_8)
qed

text \<open>
  The example chain has current era 9 and history depth 2: eras 7 and 8 are scanned, by
  two workers, and page 0 of era 8 is the unclaimed payout.
\<close>

theorem C9_default_range_example:
  "activeEra exampleClient = Some 9
   \<and> historyDepth exampleClient = 2
   \<and> scanPayouts exampleClient 5 [''stashA''] ''kusama'' 2 False None None emptyCache =
       Inr (emptyCache, [\<lparr>validator = ''stashA'', era = 8, pages = [0]\<rparr>])"
proof -
  have a: "activeEra exampleClient = Some 9"
    by (simp add: exampleClient_def)
  have d: "historyDepth exampleClient = 2"
    by (simp add: exampleClient_def)
  from C9_default_range_excludes_current_era [OF a d, THEN conjunct1,
      of 5 "[''stashA'']" "''kusama''" 2 False emptyCache]
  have "scanPayouts exampleClient 5 [''stashA''] ''kusama'' 2 False None None emptyCache =
          Inr (scanWithWorkersCustomRange exampleClient 5 [''stashA''] ''kusama'' 7 8 2 False
                 emptyCache)"
    by simp
  with a d show ?thesis
    by (simp add: example_scan)
qed

subsection \<open>The store invariant along a scan\<close>

text \<open>Every write of an era check is a \<open>setEra\<close>, so a scan keeps the keys matching the values.\<close>

lemma keysMatchValues_eraCheck:
  assumes "keysMatchValues (db c)"
  shows "keysMatchValues (db (fst (eraCheck cl useCache chn now stash c e)))"
  using assms
  by (simp add: eraCheck_def inactiveEra_def resolveClaims_def Let_def keysMatchValues_setEra
      split: rpc.splits option.splits)

lemma keysMatchValues_eraChecks:
  "keysMatchValues (db c) \<Longrightarrow>
   keysMatchValues (db (fst (eraChecks cl useCache chn now stash c es)))"
proof (induction es arbitrary: c)
  case Nil
  then show ?case by simp
next
  case (Cons e es)
  from Cons.prems have "keysMatchValues (db (fst (eraCheck cl useCache chn now stash c e)))"
    by (rule keysMatchValues_eraCheck)
  from Cons.IH [OF this] show ?case
    by (auto split: prod.splits)
qed

lemma keysMatchValues_onMessage:
  "keysMatchValues (db c) \<Longrightarrow>
   keysMatchValues (db (fst (onMessage cl useCache chn now startEra endEra c stashes)))"
proof (induction stashes arbitrary: c)
  case Nil
  then show ?case by simp
next
  case (Cons stash stashes)
  from Cons.prems
  have "keysMatchValues (db (fst (eraChecks cl useCache chn now stash c [startEra..endEra])))"
    by (rule keysMatchValues_eraChecks)
  from Cons.IH [OF this] show ?case
    by (auto split: prod.splits)
qed

lemma keysMatchValues_runWorkers:
  "keysMatchValues (db c) \<Longrightarrow>
   keysMatchValues (db (fst (runWorkers cl useCache chn now startEra endEra c cs)))"
proof (induction cs arbitrary: c)
  case Nil
  then show ?case by simp
next
  case (Cons chunk cs)
  from Cons.prems
  have "keysMatchValues (db (fst (onMessage cl useCache chn now startEra endEra c chunk)))"
    by (rule keysMatchValues_onMessage)
  from Cons.IH [OF this] show ?case
    by (auto split: prod.splits)
qed

lemma keysMatchValues_scan:
  "keysMatchValues (db c) \<Longrightarrow>
   keysMatchValues
     (db (fst (scanWithWorkersCustomRange cl now stashes chn startEra endEra workers useCache c)))"
  using keysMatchValues_runWorkers [of c cl useCache chn now startEra endEra "chunks workers stashes"]
  by (auto simp: scanWithWorkersCustomRange_def split: prod.splits)

subsection \<open>Building the transactions\<close>

lemma snd_pushTx: "snd (pushTx vld e st p) = Suc (snd st)"
  by (simp add: pushTx_def)

lemma nonce_pushTx: "map nonce (fst (pushTx vld e st p)) = map nonce (fst st) @ [snd st]"
  by (simp add: pushTx_def)

lemma tx_pushTx:
  "map tx (fst (pushTx vld e st p)) = map tx (fst st) @ [PayoutStakers vld e (Some p)]"
  by (simp add: pushTx_def)

lemma foldl_pushTx_snd: "snd (foldl (pushTx vld e) st ps) = snd st + length ps"
  by (induction ps arbitrary: st) (simp_all add: snd_pushTx)

lemma upt_first: "[n..<n + Suc k] = n # [Suc n..<Suc n + k]"
  using upt_conv_Cons [of n "n + Suc k"] by simp

lemma foldl_pushTx_nonce:
  "map nonce (fst (foldl (pushTx vld e) st ps)) =
     map nonce (fst st) @ [snd st..<snd st + length ps]"
proof (induction ps arbitrary: st)
  case Nil
  then show ?case by simp
next
  case (Cons p ps)
  have "map nonce (fst (foldl (pushTx vld e) st (p # ps))) =
          map nonce (fst (foldl (pushTx vld e) (pushTx vld e st p) ps))"
    by simp
  also have "\<dots> = (map nonce (fst st) @ [snd st]) @ [Suc (snd st)..<Suc (snd st) + length ps]"
    by (simp only: Cons.IH nonce_pushTx snd_pushTx)
  also have "\<dots> = map nonce (fst st) @ [snd st..<snd st + Suc (length ps)]"
    by (simp only: upt_first append_assoc append_Cons append_Nil)
  finally show ?case
    by (simp only: list.size add_Suc_right add_0_right)
qed

lemma foldl_pushTx_tx:
  "map tx (fst (foldl (pushTx vld e) st ps)) =
     map tx (fst st) @ map (\<lambda>p. PayoutStakers vld e (Some p)) ps"
  by (induction ps arbitrary: st) (simp_all add: tx_pushTx)

lemma snd_pushPayout: "snd (pushPayout st u) = snd st + length (pages u)"
  by (simp add: pushPayout_def foldl_pushTx_snd)

lemma nonce_pushPayout:
  "map nonce (fst (pushPayout st u)) = map nonce (fst st) @ [snd st..<snd st + length (pages u)]"
  by (simp add: pushPayout_def foldl_pushTx_nonce)

lemma tx_pushPayout:
  "map tx (fst (pushPayout st u)) =
     map tx (fst st) @ map (\<lambda>p. PayoutStakers (validator u) (era u) (Some p)) (pages u)"
  by (simp add: pushPayout_def foldl_pushTx_tx)

lemma foldl_pushPayout_nonce:
  "map nonce (fst (foldl pushPayout st us)) =
     map nonce (fst st) @ [snd st..<snd st + sum_list (map (\<lambda>u. length (pages u)) us)]"
proof (induction us arbitrary: st)
  case Nil
  then show ?case by simp
next
  case (Cons u us)
  let ?k = "length (pages u)"
  let ?m = "sum_list (map (\<lambda>u. length (pages u)) us)"
  have "map nonce (fst (foldl pushPayout st (u # us))) =
          map nonce (fst (foldl pushPayout (pushPayout st u) us))"
    by simp
  also have "\<dots> = (map nonce (fst st) @ [snd st..<snd st + ?k]) @ [snd st + ?k..<snd st + ?k + ?m]"
    by (simp only: Cons.IH nonce_pushPayout snd_pushPayout)
  also have "\<dots> = map nonce (fst st) @ [snd st..<snd st + ?k + ?m]"
    using upt_add_eq_append [of "snd st" "snd st + ?k" ?m] by simp
  finally show ?case
    by (simp add: add.assoc)
qed

lemma foldl_pushPayout_tx:
  "map tx (fst (foldl pushPayout st us)) =
     map tx (fst st)
     @ concat (map (\<lambda>u. map (\<lambda>p. PayoutStakers (validator u) (era u) (Some p)) (pages u)) us)"
  by (induction us arbitrary: st) (simp_all add: tx_pushPayout)











text \<open>
  C4. The calls of the batch are the pages of the payouts, flattened in input order; there
  are as many transactions as pages; and the nonces, in the order of the batch, are
  \<open>n0, n0 + 1, ...\<close>, one per transaction, so each is used once.
\<close>

theorem C4_sequential_nonces:
  "map tx (buildTxs n0 unclaimed) =
     concat (map (\<lambda>u. map (\<lambda>p. PayoutStakers (validator u) (era u) (Some p)) (pages u)) unclaimed)
   \<and> length (buildTxs n0 unclaimed) = sum_list (map (\<lambda>u. length (pages u)) unclaimed)
   \<and> map nonce (buildTxs n0 unclaimed) = [n0..<n0 + length (buildTxs n0 unclaimed)]
   \<and> distinct (map nonce (buildTxs n0 unclaimed))
   \<and> set (map nonce (buildTxs n0 unclaimed)) = {n0..<n0 + length (buildTxs n0 unclaimed)}"
proof -
  let ?N = "sum_list (map (\<lambda>u. length (pages u)) unclaimed)"
  have calls: "map tx (buildTxs n0 unclaimed) =
     concat (map (\<lambda>u. map (\<lambda>p. PayoutStakers (validator u) (era u) (Some p)) (pages u)) unclaimed)"
    by (simp add: buildTxs_def foldl_pushPayout_tx)
  have nonces: "map nonce (buildTxs n0 unclaimed) = [n0..<n0 + ?N]"
    by (simp add: buildTxs_def foldl_pushPayout_nonce)
  then have "length (map nonce (buildTxs n0 unclaimed)) = length [n0..<n0 + ?N]"
    by (rule arg_cong)
  then have len: "length (buildTxs n0 unclaimed) = ?N"
    by simp
  have seq: "map nonce (buildTxs n0 unclaimed) = [n0..<n0 + length (buildTxs n0 unclaimed)]"
    by (simp only: nonces len)
  have d: "distinct (map nonce (buildTxs n0 unclaimed))"
    by (simp only: seq distinct_upt)
  have s: "set (map nonce (buildTxs n0 unclaimed)) = {n0..<n0 + length (buildTxs n0 unclaimed)}"
    by (subst seq) (rule set_upt)
  show ?thesis
    by (intro conjI calls len seq d s)
qed

text \<open>Two payouts with two pages and one page, from nonce 5: the nonces are 5, 6 and 7.\<close>

theorem C4_sequential_nonces_example:
  "map nonce (buildTxs 5 [\<lparr>validator = ''stashAlice'', era = 8, pages = [0, 1]\<rparr>,
                          \<lparr>validator = ''stashBob'', era = 7, pages = [3]\<rparr>]) = [5, 6, 7]
   \<and> map tx (buildTxs 5 [\<lparr>validator = ''stashAlice'', era = 8, pages = [0, 1]\<rparr>,
                         \<lparr>validator = ''stashBob'', era = 7, pages = [3]\<rparr>]) =
       [PayoutStakers ''stashAlice'' 8 (Some 0), PayoutStakers ''stashAlice'' 8 (Some 1),
        PayoutStakers ''stashBob'' 7 (Some 3)]"
proof -
  let ?us = "[\<lparr>validator = ''stashAlice'', era = 8, pages = [0, 1]\<rparr>,
              \<lparr>validator = ''stashBob'', era = 7, pages = [3]\<rparr>]"
  note c4 = C4_sequential_nonces [of 5 ?us]
  have calls: "map tx (buildTxs 5 ?us) =
       [PayoutStakers ''stashAlice'' 8 (Some 0), PayoutStakers ''stashAlice'' 8 (Some 1),
        PayoutStakers ''stashBob'' 7 (Some 3)]"
    using c4 [THEN conjunct1] by simp
  have len: "length (buildTxs 5 ?us) = 3"
    using c4 [THEN conjunct2, THEN conjunct1] by simp
  have "map nonce (buildTxs 5 ?us) = [5..<5 + 3]"
    using c4 [THEN conjunct2, THEN conjunct2, THEN conjunct1] by (simp only: len)
  also have "[5..<5 + 3] = [5, 6, 7 :: nat]"
    by code_simp
  finally show ?thesis
    using calls by simp
qed

subsection \<open>Preflight, outcomes and report of a submission\<close>

lemma submitPayouts_insufficient:
  assumes "unclaimed \<noteq> []"
    and "snd (systemAccount cl signer) < totalFee cl signer unclaimed * 2"
  shows "submitPayouts cl unclaimed signer =
           ([], Inl (InsufficientBalance (snd (systemAccount cl signer))
                       (totalFee cl signer unclaimed * 2)))"
  using assms by (cases "systemAccount cl signer") (simp add: submitPayouts_def)


text \<open>
  C1, at an input where the code and the claim differ. One payout with pages 0 and 1 makes
  two transactions. The fee estimate is 10 and the free balance 20. The code multiplies
  the estimate by the number of payouts, one, so \<open>totalFee\<close> is 10 and the balance passes
  the check against 20; both transactions are broadcast, with nonces 5 and 6. By the
  claim the fee is multiplied by the number of transactions, the bound is 40, and nothing
  may be sent.
\<close>

theorem C1_fee_counts_payouts_not_transactions:
  "totalFee exampleClient ''signer'' [\<lparr>validator = ''stashA'', era = 8, pages = [0, 1]\<rparr>] = 10
   \<and> systemAccount exampleClient ''signer'' = (5, 20)
   \<and> map nonce (fst (submitPayouts exampleClient
                        [\<lparr>validator = ''stashA'', era = 8, pages = [0, 1]\<rparr>] ''signer'')) = [5, 6]
   \<and> 2 * (paymentInfo exampleClient
             (representative \<lparr>validator = ''stashA'', era = 8, pages = [0, 1]\<rparr>) ''signer''
           * length (fst (submitPayouts exampleClient
                            [\<lparr>validator = ''stashA'', era = 8, pages = [0, 1]\<rparr>] ''signer''))) = 40"
  by (simp add: submitPayouts_def totalFee_def exampleClient_def buildTxs_def pushPayout_def
      pushTx_def Let_def)










end
